theory Spec2Isabelle
  imports Main "HOL-Library.AList"
begin

section \<open>JavaScript values\<close>

text \<open>
  The values the library passes around.  Primitives are compared by value, objects and
  functions by their address in the heap, so HOL equality on \<open>jsval\<close> is the strict
  equality \<open>===\<close> of the source (numbers are integers here; floating point and its
  \<open>NaN\<close> are outside the model).  \<open>JNative k\<close> is the member named \<open>k\<close> that every
  object inherits from \<open>Object.prototype\<close>; it only arises from reading a property.
\<close>

datatype jsval =
    JUndefined
  | JNull
  | JBool bool
  | JNum int
  | JStr string
  | JRef nat
  | JNative string

text \<open>Every \<open>throw\<close> of the source, and the \<open>TypeError\<close> of the language itself.\<close>

datatype error =
    NamespaceNotString
  | NamespaceReserved
  | KeyInvalid
  | TypeError
  | DuplicateActionType string

section \<open>The action type registry (index.js, createActionType)\<close>

text \<open>
  A counter is written after \<open>#\<close> in decimal, as string concatenation with a number does.
\<close>

definition digit_char :: "nat \<Rightarrow> char" where
  "digit_char d = char_of (48 + d)"

function decimal :: "nat \<Rightarrow> string" where
  "decimal n =
     (if n < 10 then [digit_char n]
      else decimal (n div 10) @ [digit_char (n mod 10)])"
  by pat_completeness auto
termination
  by (relation "measure id") auto

declare decimal.simps [simp del]

text \<open>
  \<open>globalActionTypeTicks\<close> and \<open>globalActionTypes\<close>: the two module-level objects.  Their
  keys always contain a colon, so no key ever names a member inherited from
  \<open>Object.prototype\<close> and a partial map is the object.
\<close>

record registry =
  actionTypeTicks :: "string \<rightharpoonup> nat"
  actionTypes :: "string \<rightharpoonup> bool"

definition empty_registry :: registry where
  "empty_registry = \<lparr> actionTypeTicks = Map.empty, actionTypes = Map.empty \<rparr>"

text \<open>\<open>namespace.match(/[\#\:\|]/i)\<close> and \<open>key.match(/[\#\:\.\|]/i)\<close>.\<close>

definition namespace_match :: "string \<Rightarrow> bool" where
  "namespace_match s = list_ex (\<lambda>c. c \<in> set ''#:|'') s"

definition key_match :: "string \<Rightarrow> bool" where
  "key_match s = list_ex (\<lambda>c. c \<in> set ''#:.|'') s"

text \<open>
  \<open>createActionType(namespace, key)\<close>.  The namespace is any value (the source tests its
  type), the key a string (a key of the action map).  A \<open>throw\<close> leaves the registry as it
  was: the three checks come before the first write.
\<close>

definition createActionType ::
  "registry \<Rightarrow> jsval \<Rightarrow> string \<Rightarrow> (error + string) \<times> registry" where
  "createActionType reg namespace key =
     (case namespace of
        JStr ns \<Rightarrow>
          if namespace_match ns then (Inl NamespaceReserved, reg)
          else if key = [] \<or> key_match key then (Inl KeyInvalid, reg)
          else
            let prefix = ns @ '':'' @ key;
                tick = (case actionTypeTicks reg prefix of None \<Rightarrow> 0 | Some n \<Rightarrow> n) + 1;
                reg1 = reg \<lparr> actionTypeTicks := (actionTypeTicks reg)(prefix \<mapsto> tick) \<rparr>;
                name = ''|'' @ prefix @ (if tick = 1 then [] else ''#'' @ decimal tick);
                reg2 = reg1 \<lparr> actionTypes := (actionTypes reg1)(name \<mapsto> True) \<rparr>
            in (Inr name, reg2)
      | _ \<Rightarrow> (Inl NamespaceNotString, reg))"

text \<open>
  The registry of a process after a history of allocation requests, each one a call of
  \<open>createActionType\<close> that returned or threw.
\<close>

definition registry_after :: "(jsval \<times> string) list \<Rightarrow> registry" where
  "registry_after reqs =
     foldl (\<lambda>reg (namespace, key). snd (createActionType reg namespace key))
       empty_registry reqs"

section \<open>Objects, functions and arrays on the heap\<close>

text \<open>
  An object has its own enumerable properties, kept in the order \<open>Object.keys\<close> lists them
  (a new key goes to the end; keys that are array indices, which JavaScript lists first,
  and the accessor \<open>__proto__\<close> on assignment are outside the model), and, when it is an
  array, its elements.  \<open>typeof\<close> is \<open>function\<close> for \<open>KFunction\<close> and \<open>object\<close> for the
  other two kinds.
\<close>

datatype objkind = KObject | KFunction | KArray

record jsobj =
  kind :: objkind
  props :: "(string \<times> jsval) list"
  elems :: "jsval list"

text \<open>The state of the process: the registry of index.js and the heap.\<close>

record world =
  globals :: registry
  heap :: "jsobj list"

text \<open>
  A computation returns a value or throws, and changes the world either way: what was
  written before a \<open>throw\<close> stays written.
\<close>

type_synonym 'a js = "world \<Rightarrow> (error + 'a) \<times> world"

definition ret :: "'a \<Rightarrow> 'a js" where
  "ret x = (\<lambda>w. (Inr x, w))"

definition throw :: "error \<Rightarrow> 'a js" where
  "throw e = (\<lambda>w. (Inl e, w))"

definition bind :: "'a js \<Rightarrow> ('a \<Rightarrow> 'b js) \<Rightarrow> 'b js" where
  "bind m f = (\<lambda>w. case m w of (Inl e, w') \<Rightarrow> (Inl e, w') | (Inr x, w') \<Rightarrow> f x w')"

text \<open>\<open>xs.forEach(f)\<close>: the calls in order, stopping at the first that throws.\<close>

fun forEach :: "'a list \<Rightarrow> ('a \<Rightarrow> unit js) \<Rightarrow> unit js" where
  "forEach [] f = ret ()"
| "forEach (x # xs) f = bind (f x) (\<lambda>_. forEach xs f)"

text \<open>The conversion to a boolean of \<open>!!v\<close>, \<open>if (v)\<close>, \<open>v && ...\<close> and \<open>v || ...\<close>.\<close>

fun truthy :: "jsval \<Rightarrow> bool" where
  "truthy JUndefined = False"
| "truthy JNull = False"
| "truthy (JBool b) = b"
| "truthy (JNum n) = (n \<noteq> 0)"
| "truthy (JStr s) = (s \<noteq> [])"
| "truthy (JRef a) = True"
| "truthy (JNative k) = True"

text \<open>
  The conversion of a value to a string, as a property key or an operand of \<open>+\<close> and
  \<open>join\<close>.  An object is converted as a plain object is.
\<close>

definition decimal_int :: "int \<Rightarrow> string" where
  "decimal_int i = (if 0 \<le> i then decimal (nat i) else CHR ''-'' # decimal (nat (- i)))"

fun to_string :: "jsval \<Rightarrow> string" where
  "to_string JUndefined = ''undefined''"
| "to_string JNull = ''null''"
| "to_string (JBool b) = (if b then ''true'' else ''false'')"
| "to_string (JNum n) = decimal_int n"
| "to_string (JStr s) = s"
| "to_string (JRef a) = ''[object Object]''"
| "to_string (JNative k) = ''function '' @ k @ ''() { [native code] }''"

text \<open>
  The members of \<open>Object.prototype\<close>: every object the library creates with \<open>{}\<close> and uses
  as a map inherits them, so reading one of these names never gives \<open>undefined\<close>.
\<close>

definition object_prototype_names :: "string list" where
  "object_prototype_names =
     [''constructor'', ''hasOwnProperty'', ''isPrototypeOf'', ''propertyIsEnumerable'',
      ''toLocaleString'', ''toString'', ''valueOf'', ''__proto__'',
      ''__defineGetter__'', ''__defineSetter__'', ''__lookupGetter__'', ''__lookupSetter__'']"

text \<open>
  The properties of a function that an assignment cannot write: \<open>name\<close> and \<open>length\<close> are
  read-only, \<open>caller\<close> and \<open>arguments\<close> have a setter that throws.  The library's
  functions are arrow functions of modules, which are strict: the assignment throws.
\<close>

definition function_readonly_names :: "string list" where
  "function_readonly_names = [''name'', ''length'', ''caller'', ''arguments'']"

text \<open>
  \<open>v[k]\<close> for a value that is not \<open>undefined\<close> or \<open>null\<close> (the source tests that before it
  reads): an own property, else an inherited member, else \<open>undefined\<close>.  The members that
  only functions, arrays and strings have (\<open>length\<close>, the array methods) are not
  modelled; the source reads none of them by a computed key.
\<close>

definition get_prop :: "jsobj list \<Rightarrow> jsval \<Rightarrow> string \<Rightarrow> jsval" where
  "get_prop h v k =
     (let own = (case v of
                   JRef a \<Rightarrow> (if a < length h then map_of (props (h ! a)) k else None)
                 | _ \<Rightarrow> None)
      in case own of
           Some x \<Rightarrow> x
         | None \<Rightarrow> if k \<in> set object_prototype_names then JNative k else JUndefined)"

definition is_function :: "jsobj list \<Rightarrow> jsval \<Rightarrow> bool" where
  "is_function h v =
     (case v of
        JRef a \<Rightarrow> a < length h \<and> kind (h ! a) = KFunction
      | JNative k \<Rightarrow> k \<noteq> ''__proto__''
      | _ \<Rightarrow> False)"

definition own_keys :: "jsobj list \<Rightarrow> jsval \<Rightarrow> string list" where
  "own_keys h v =
     (case v of
        JRef a \<Rightarrow> (if a < length h then map fst (props (h ! a)) else [])
      | _ \<Rightarrow> [])"

text \<open>A new object, function or array: the next free address.\<close>

definition alloc :: "objkind \<Rightarrow> jsval js" where
  "alloc kd =
     (\<lambda>w. (Inr (JRef (length (heap w))),
           w \<lparr> heap := heap w @ [\<lparr> kind = kd, props = [], elems = [] \<rparr>] \<rparr>))"

text \<open>
  \<open>target[k] = v\<close> in strict code.  On a primitive it throws; on a function it throws for
  the names above; otherwise the property is written where it stands or added at the end.
\<close>

definition assign_prop :: "jsval \<Rightarrow> string \<Rightarrow> jsval \<Rightarrow> unit js" where
  "assign_prop target k v =
     (\<lambda>w. case target of
        JRef a \<Rightarrow>
          if a < length (heap w) then
            (let ob = heap w ! a in
             if kind ob = KFunction \<and> k \<in> set function_readonly_names
             then (Inl TypeError, w)
             else (Inr (), w \<lparr> heap := (heap w)[a := ob \<lparr> props := AList.update k v (props ob) \<rparr>] \<rparr>))
          else (Inl TypeError, w)
      | _ \<Rightarrow> (Inl TypeError, w))"

text \<open>\<open>list.push(v)\<close>; a value that is no array has no \<open>push\<close>.\<close>

definition array_push :: "jsval \<Rightarrow> jsval \<Rightarrow> unit js" where
  "array_push list v =
     (\<lambda>w. case list of
        JRef a \<Rightarrow>
          if a < length (heap w) \<and> kind (heap w ! a) = KArray
          then (let ob = heap w ! a
                in (Inr (), w \<lparr> heap := (heap w)[a := ob \<lparr> elems := elems ob @ [v] \<rparr>] \<rparr>))
          else (Inl TypeError, w)
      | _ \<Rightarrow> (Inl TypeError, w))"

text \<open>
  What calling a function does is given for each function by its address: \<open>call a\<close> takes
  the two arguments \<open>(state, action)\<close>.  Calling a value that is no function throws.
\<close>

type_synonym calls = "nat \<Rightarrow> jsval \<Rightarrow> jsval \<Rightarrow> jsval js"

definition call_value :: "calls \<Rightarrow> jsval \<Rightarrow> jsval \<Rightarrow> jsval \<Rightarrow> jsval js" where
  "call_value call f state action =
     (\<lambda>w. case f of
        JRef a \<Rightarrow> if is_function (heap w) f then call a state action w else (Inl TypeError, w)
      | _ \<Rightarrow> (Inl TypeError, w))"

section \<open>The reducer builder of index.js\<close>

text \<open>\<open>key.split('|')\<close>: the pieces between the separators, the empty ones included.\<close>

fun split_sep :: "char \<Rightarrow> string \<Rightarrow> string list" where
  "split_sep c [] = [[]]"
| "split_sep c (x # xs) =
     (if x = c then [] # split_sep c xs
      else (case split_sep c xs of
              [] \<Rightarrow> [[x]]
            | s # ss \<Rightarrow> (x # s) # ss))"

text \<open>\<open>key.split('|').filter(key => !!key).map(key => '|' + key)\<close>.\<close>

definition split_key :: "string \<Rightarrow> string list" where
  "split_key key = map (\<lambda>s. ''|'' @ s) (filter (\<lambda>s. s \<noteq> []) (split_sep CHR ''|'' key))"

text \<open>\<open>createActionType\<close> on the registry of the world.\<close>

definition createActionType_js :: "jsval \<Rightarrow> string \<Rightarrow> string js" where
  "createActionType_js namespace key =
     (\<lambda>w. case createActionType (globals w) namespace key of
             (r, g) \<Rightarrow> (r, w \<lparr> globals := g \<rparr>))"

text \<open>
  The body of \<open>actionTypes.forEach\<close>:
  \<open>const list = actionHandlers[name] || (actionHandlers[name] = []); list.push(actionHandler)\<close>.
\<close>

definition register_handler :: "jsval \<Rightarrow> jsval \<Rightarrow> string \<Rightarrow> unit js" where
  "register_handler actionHandlers actionHandler name =
     (\<lambda>w. let found = get_prop (heap w) actionHandlers name
          in if truthy found then array_push found actionHandler w
             else bind (alloc KArray) (\<lambda>list.
                  bind (assign_prop actionHandlers name list) (\<lambda>_.
                  array_push list actionHandler)) w)"

text \<open>
  The body of \<open>Object.keys(actions).forEach\<close> in \<open>reducer\<close>, for the key and its value.
  There is no test of what the value is.
\<close>

definition reducer_entry :: "jsval \<Rightarrow> jsval \<Rightarrow> jsval \<Rightarrow> string \<times> jsval \<Rightarrow> unit js" where
  "reducer_entry namespace reducerFunc actionHandlers entry =
     (case entry of (key, actionHandler) \<Rightarrow>
        bind (if key \<noteq> [] \<and> hd key = CHR ''|'' then ret (split_key key)
              else bind (createActionType_js namespace key) (\<lambda>actionType.
                   bind (assign_prop actionHandler ''type'' (JStr actionType)) (\<lambda>_.
                   bind (assign_prop reducerFunc key actionHandler) (\<lambda>_.
                   ret [actionType]))))
          (\<lambda>actionTypes. forEach actionTypes (register_handler actionHandlers actionHandler)))"

text \<open>
  \<open>reducer(namespace, initialState, actions)\<close>.  The action map is given by its own
  properties in the order of \<open>Object.keys\<close>.  The function returned is a new function
  object; what it does when called is \<open>reducerFunc\<close> below, for the \<open>initialState\<close> given
  and the \<open>actionHandlers\<close> object made here.
\<close>

definition reducer :: "jsval \<Rightarrow> jsval \<Rightarrow> (string \<times> jsval) list \<Rightarrow> jsval js" where
  "reducer namespace initialState actions =
     bind (alloc KObject) (\<lambda>actionHandlers.
     bind (alloc KFunction) (\<lambda>reducerFunc.
     bind (forEach actions (reducer_entry namespace reducerFunc actionHandlers)) (\<lambda>_.
     bind (assign_prop reducerFunc ''_actionizeNamespace'' namespace) (\<lambda>_.
     bind (assign_prop reducerFunc ''_actionizeHandlers'' actionHandlers) (\<lambda>_.
     ret reducerFunc)))))"

section \<open>The reducer builder of ActionizeBuild\<close>

text \<open>
  \<open>Actionize.buildActionType(namespace, key)\<close>: \<open>validateActionKey\<close>, then
  \<open>'|' + namespace + ':' + key\<close>.  The key is a key of the action map, hence a string.
  No counter is kept.
\<close>

definition buildActionType :: "jsval \<Rightarrow> string \<Rightarrow> string js" where
  "buildActionType namespace key =
     (if key_match key then throw KeyInvalid
      else ret (''|'' @ to_string namespace @ '':'' @ key))"

text \<open>
  The body of \<open>Object.keys(actions).forEach\<close> in \<open>ActionizeBuild.reducer\<close>, under its guard
  \<open>typeof actionHandler === 'function' && key\<close>.  \<open>actionCall\<close> is a new function that calls
  the handler; it, not the handler, gets the type, the property of the reducer and the
  place in the dispatch table.
\<close>

definition ActionizeBuild_reducer_entry ::
  "jsval \<Rightarrow> jsval \<Rightarrow> jsval \<Rightarrow> string \<times> jsval \<Rightarrow> unit js" where
  "ActionizeBuild_reducer_entry name reducerFunc actionHandlers entry =
     (case entry of (key, actionHandler) \<Rightarrow>
        (\<lambda>w. if is_function (heap w) actionHandler \<and> key \<noteq> [] then
               bind (alloc KFunction) (\<lambda>actionCall.
               bind (if hd key = CHR ''|'' then ret (split_key key)
                     else bind (buildActionType name key) (\<lambda>actionType.
                          bind (assign_prop actionCall ''type'' (JStr actionType)) (\<lambda>_.
                          bind (assign_prop reducerFunc key actionCall) (\<lambda>_.
                          ret [actionType]))))
                 (\<lambda>actionTypes.
                    forEach actionTypes (register_handler actionHandlers actionCall))) w
             else (Inr (), w)))"

definition ActionizeBuild_reducer ::
  "jsval \<Rightarrow> jsval \<Rightarrow> (string \<times> jsval) list \<Rightarrow> jsval js" where
  "ActionizeBuild_reducer name initialState actions =
     bind (alloc KObject) (\<lambda>actionHandlers.
     bind (alloc KFunction) (\<lambda>reducerFunc.
     bind (forEach actions (ActionizeBuild_reducer_entry name reducerFunc actionHandlers))
       (\<lambda>_. ret reducerFunc)))"

section \<open>The reducer builder of the Actionize class with its own registry\<close>



section \<open>What a computation leaves as it was\<close>

text \<open>
  Three properties of computations, each kept by sequencing.  \<open>heap_stable m\<close>: the heap only
  grows and no object changes its kind.  \<open>keeps f m\<close>: the properties of the object at
  address \<open>f\<close> are not written.  \<open>allocates m\<close>: the registry changes only by calls of
  \<open>createActionType\<close>.
\<close>

definition extends :: "jsobj list \<Rightarrow> jsobj list \<Rightarrow> bool" where
  "extends h h' =
     (length h \<le> length h' \<and> (\<forall>a<length h. kind (h' ! a) = kind (h ! a)))"

definition heap_stable :: "'a js \<Rightarrow> bool" where
  "heap_stable m = (\<forall>w. extends (heap w) (heap (snd (m w))))"

definition keeps :: "nat \<Rightarrow> 'a js \<Rightarrow> bool" where
  "keeps f m =
     (\<forall>w. f < length (heap w) \<longrightarrow>
           f < length (heap (snd (m w))) \<and>
           props (heap (snd (m w)) ! f) = props (heap w ! f))"

definition run_requests :: "registry \<Rightarrow> (jsval \<times> string) list \<Rightarrow> registry" where
  "run_requests r reqs =
     foldl (\<lambda>r' (namespace, key). snd (createActionType r' namespace key)) r reqs"

definition allocates :: "'a js \<Rightarrow> bool" where
  "allocates m = (\<forall>w. \<exists>reqs. globals (snd (m w)) = run_requests (globals w) reqs)"




section \<open>Dispatch by the reducer of index.js\<close>

text \<open>\<open>handlers.forEach(handler => state = handler(state, action))\<close>, then \<open>state\<close>.\<close>

fun run_handlers :: "calls \<Rightarrow> jsval list \<Rightarrow> jsval \<Rightarrow> jsval \<Rightarrow> jsval js" where
  "run_handlers call [] state action = ret state"
| "run_handlers call (handler # rest) state action =
     bind (call_value call handler state action)
       (\<lambda>state'. run_handlers call rest state' action)"

text \<open>
  \<open>reducerFunc(state = initialState, action)\<close>.  The default takes the place of a state
  that is \<open>undefined\<close>, passed or left out.  A value found under the type that is no array
  has no \<open>forEach\<close>, and calling \<open>undefined\<close> throws.
\<close>

definition reducerFunc :: "calls \<Rightarrow> jsval \<Rightarrow> jsval \<Rightarrow> jsval \<Rightarrow> jsval \<Rightarrow> jsval js" where
  "reducerFunc call initialState actionHandlers state0 action =
     (\<lambda>w. let state = (if state0 = JUndefined then initialState else state0);
              actionType = (if truthy action then get_prop (heap w) action ''type'' else action);
              handlers = (if truthy actionType
                          then get_prop (heap w) actionHandlers (to_string actionType)
                          else actionType)
          in if truthy handlers then
               (case handlers of
                  JRef a \<Rightarrow>
                    if a < length (heap w) \<and> kind (heap w ! a) = KArray
                    then run_handlers call (elems (heap w ! a)) state action w
                    else (Inl TypeError, w)
                | _ \<Rightarrow> (Inl TypeError, w))
             else (Inr state, w))"

section \<open>combine and nest\<close>

text \<open>
  The strategies are functions of the caller: \<open>pick(state, key)\<close> and
  \<open>join(state, values)\<close>.  The reducers are given as the own properties of the \<open>reducers\<close>
  object, in the order of \<open>Object.keys\<close>, each key once.
\<close>

type_synonym pick = "jsval \<Rightarrow> string \<Rightarrow> jsval js"
type_synonym join = "jsval \<Rightarrow> jsval \<Rightarrow> jsval js"

text \<open>
  The body of \<open>reducerKeys.forEach\<close> in the function \<open>combine\<close> returns, with the two
  variables it writes: \<open>updated\<close> and \<open>values\<close>.  The \<open>values\<close> object is local to the call
  and out of reach of \<open>pick\<close> and of the reducers, so it is kept as the list of its
  properties until it is handed to \<open>join\<close>.
\<close>

definition combine_child ::
  "calls \<Rightarrow> pick \<Rightarrow> jsval \<Rightarrow> jsval \<Rightarrow> bool \<times> (string \<times> jsval) list \<Rightarrow> string \<times> jsval
     \<Rightarrow> (bool \<times> (string \<times> jsval) list) js" where
  "combine_child call pick state action acc entry =
     (case acc of (updated, values) \<Rightarrow>
      case entry of (key, child) \<Rightarrow>
        bind (pick state key) (\<lambda>subState.
        bind (call_value call child subState action) (\<lambda>newState.
        ret (updated \<or> subState \<noteq> newState, AList.update key newState values))))"

fun combine_loop ::
  "calls \<Rightarrow> pick \<Rightarrow> jsval \<Rightarrow> jsval \<Rightarrow> (string \<times> jsval) list
     \<Rightarrow> bool \<times> (string \<times> jsval) list \<Rightarrow> (bool \<times> (string \<times> jsval) list) js" where
  "combine_loop call pick state action [] acc = ret acc"
| "combine_loop call pick state action (entry # entries) acc =
     bind (combine_child call pick state action acc entry)
       (\<lambda>acc'. combine_loop call pick state action entries acc')"

text \<open>An object with the given properties, as \<open>values\<close> is when \<open>join\<close> receives it.\<close>

definition alloc_object :: "(string \<times> jsval) list \<Rightarrow> jsval js" where
  "alloc_object ps =
     (\<lambda>w. (Inr (JRef (length (heap w))),
           w \<lparr> heap := heap w @ [\<lparr> kind = KObject, props = ps, elems = [] \<rparr>] \<rparr>))"

text \<open>
  The function \<open>combine(reducers, pick, join)\<close> returns, called with \<open>(state, action)\<close>.
  \<open>ActionizeBuild.combine\<close> returns a function with the same body.
\<close>

definition combine_call ::
  "calls \<Rightarrow> (string \<times> jsval) list \<Rightarrow> pick \<Rightarrow> join \<Rightarrow> jsval \<Rightarrow> jsval \<Rightarrow> jsval js" where
  "combine_call call reducers pick join state action =
     bind (combine_loop call pick state action reducers (False, [])) (\<lambda>acc.
       case acc of (updated, values) \<Rightarrow>
         if updated then bind (alloc_object values) (\<lambda>v. join state v)
         else ret state)"

text \<open>
  What each child was given and what it returned, in order: the triples
  \<open>(key, subState, newState)\<close> of one call of the combined reducer.
\<close>

fun child_runs ::
  "calls \<Rightarrow> pick \<Rightarrow> jsval \<Rightarrow> jsval \<Rightarrow> (string \<times> jsval) list
     \<Rightarrow> (string \<times> jsval \<times> jsval) list js" where
  "child_runs call pick state action [] = ret []"
| "child_runs call pick state action (entry # entries) =
     (case entry of (key, child) \<Rightarrow>
        bind (pick state key) (\<lambda>subState.
        bind (call_value call child subState action) (\<lambda>newState.
        bind (child_runs call pick state action entries) (\<lambda>runs.
        ret ((key, subState, newState) # runs)))))"

text \<open>
  \<open>combine\<close> of index.js returns a new function and gives it no property.
  \<open>ActionizeBuild.combine\<close> ends with
  \<open>reducerKeys.forEach(key => { reducerFunc[key] = reducers[key]; })\<close>.
\<close>

definition combine :: "(string \<times> jsval) list \<Rightarrow> jsval js" where
  "combine reducers = alloc KFunction"

definition ActionizeBuild_combine :: "(string \<times> jsval) list \<Rightarrow> jsval js" where
  "ActionizeBuild_combine reducers =
     bind (alloc KFunction) (\<lambda>reducerFunc.
     bind (forEach reducers (\<lambda>entry. case entry of (key, r) \<Rightarrow> assign_prop reducerFunc key r))
       (\<lambda>_. ret reducerFunc))"

text \<open>
  The function \<open>nest(parent, reducers, pick, join)\<close> returns:
  \<open>const parentState = parent(state, action); return nestedReducer(parentState, action);\<close>
\<close>

definition nest_call ::
  "calls \<Rightarrow> jsval \<Rightarrow> (string \<times> jsval) list \<Rightarrow> pick \<Rightarrow> join \<Rightarrow> jsval \<Rightarrow> jsval \<Rightarrow> jsval js" where
  "nest_call call parent reducers pick join state action =
     bind (call_value call parent state action) (\<lambda>parentState.
       combine_call call reducers pick join parentState action)"

text \<open>
  \<open>ActionizeBuild.nest\<close> builds the function: the properties of the nested combination
  are copied, then those of the parent that are functions with a truthy \<open>type\<close>.
\<close>

definition is_action :: "jsobj list \<Rightarrow> jsval \<Rightarrow> bool" where
  "is_action h action = (is_function h action \<and> truthy (get_prop h action ''type''))"

definition copy_action :: "jsval \<Rightarrow> jsval \<Rightarrow> string \<Rightarrow> unit js" where
  "copy_action parent nested key =
     (\<lambda>w. let action = get_prop (heap w) parent key
          in if is_action (heap w) action then assign_prop nested key action w
             else (Inr (), w))"

text \<open>The keys of the parent that the second loop of \<open>ActionizeBuild.nest\<close> copies.\<close>

definition parent_actions :: "jsobj list \<Rightarrow> jsval \<Rightarrow> string list" where
  "parent_actions h parent =
     filter (\<lambda>key. is_action h (get_prop h parent key)) (own_keys h parent)"

text \<open>A value that is no address beyond the heap: every value a program can hold.\<close>

definition in_heap :: "jsobj list \<Rightarrow> jsval \<Rightarrow> bool" where
  "in_heap h v = (case v of JRef q \<Rightarrow> q < length h | _ \<Rightarrow> True)"

definition ActionizeBuild_nest :: "jsval \<Rightarrow> (string \<times> jsval) list \<Rightarrow> jsval js" where
  "ActionizeBuild_nest parent reducers =
     bind (ActionizeBuild_combine reducers) (\<lambda>nestedReducer.
     bind (alloc KFunction) (\<lambda>reducerFunc.
     bind (\<lambda>w. forEach (own_keys (heap w) nestedReducer)
                  (\<lambda>key w'. assign_prop reducerFunc key (get_prop (heap w') nestedReducer key) w') w)
       (\<lambda>_.
     bind (\<lambda>w. forEach (own_keys (heap w) parent) (copy_action parent reducerFunc) w) (\<lambda>_.
     ret reducerFunc))))"

text \<open>
  The plain policy: \<open>(state, key) => state && state[key]\<close> picks;
  \<open>(state, values) => values\<close> joins for \<open>combine.plain\<close> and
  \<open>(state, values) => Object.assign({}, state, values)\<close> for \<open>nest.plain\<close>.
  \<open>Object.assign\<close> copies the own enumerable properties of each source that is an object
  (the elements of an array under their indices, the characters of a string likewise).
\<close>

definition plain_pick :: pick where
  "plain_pick state key =
     (\<lambda>w. (Inr (if truthy state then get_prop (heap w) state key else state), w))"

definition combine_plain_join :: join where
  "combine_plain_join state values = ret values"

definition enumerable_props :: "jsobj list \<Rightarrow> jsval \<Rightarrow> (string \<times> jsval) list" where
  "enumerable_props h v =
     (case v of
        JRef a \<Rightarrow>
          (if a < length h
           then zip (map decimal [0 ..< length (elems (h ! a))]) (elems (h ! a)) @ props (h ! a)
           else [])
      | JStr s \<Rightarrow> zip (map decimal [0 ..< length s]) (map (\<lambda>c. JStr [c]) s)
      | _ \<Rightarrow> [])"

definition Object_assign :: "jsval list \<Rightarrow> jsval js" where
  "Object_assign sources =
     (\<lambda>w. alloc_object
            (foldl (\<lambda>ps kv. AList.update (fst kv) (snd kv) ps) []
               (concat (map (enumerable_props (heap w)) sources))) w)"

definition nest_plain_join :: join where
  "nest_plain_join state values = Object_assign [state, values]"

section \<open>handle of index.js\<close>




text \<open>
  An action type as the registry writes it: the separator, then a part that is not empty
  and has no separator in it.
\<close>

definition is_action_type :: "string \<Rightarrow> bool" where
  "is_action_type t =
     (case t of
        [] \<Rightarrow> False
      | c # body \<Rightarrow> c = CHR ''|'' \<and> body \<noteq> [] \<and> CHR ''|'' \<notin> set body)"

section \<open>The validator of action types\<close>

text \<open>
  An instance of the class \<open>Actionize\<close> with \<open>_reserveActionTypes\<close>, as far as the validator
  uses it: \<open>_actionTypes\<close>, a plain object used as a map from the types recorded to \<open>true\<close>,
  given by its own properties, and \<open>_reducersReserved\<close>, the array of the reducers that
  have been reserved.  Both are made by the constructor and nothing else refers to them.
\<close>

record actionize =
  Actionize_actionTypes :: "(string \<times> jsval) list"
  Actionize_reducersReserved :: "jsval list"

definition new_Actionize :: actionize where
  "new_Actionize = \<lparr> Actionize_actionTypes = [], Actionize_reducersReserved = [] \<rparr>"

text \<open>
  \<open>types[type]\<close>: the map is made with \<open>{}\<close>, so a name that is not recorded is looked up
  in \<open>Object.prototype\<close>.
\<close>

definition types_get :: "(string \<times> jsval) list \<Rightarrow> string \<Rightarrow> jsval" where
  "types_get types k =
     (case map_of types k of
        Some x \<Rightarrow> x
      | None \<Rightarrow> if k \<in> set object_prototype_names then JNative k else JUndefined)"

text \<open>
  The body of the loop over \<open>Object.keys(reducer)\<close> in \<open>_reserveActionTypes\<close>, with the flag
  \<open>reserve\<close> passed along; \<open>recur\<close> is the call of \<open>_reserveActionTypes\<close> on an item that is a
  function with no type.  The validator only reads the heap.  A \<open>throw\<close> ends the loop and
  every call above it.
\<close>

fun reserve_keys ::
  "(jsval \<Rightarrow> actionize \<Rightarrow> ((error + unit) \<times> actionize) option) \<Rightarrow> jsobj list \<Rightarrow> jsval \<Rightarrow>
   string list \<Rightarrow> bool \<Rightarrow> actionize \<Rightarrow> ((error + bool) \<times> actionize) option" where
  "reserve_keys recur h red [] reserve s = Some (Inr reserve, s)"
| "reserve_keys recur h red (key # keys) reserve s =
     (let item = get_prop h red key in
      if is_function h item then
        (let type = get_prop h item ''type'' in
         if truthy type then
           (if truthy (types_get (Actionize_actionTypes s) (to_string type))
            then Some (Inl (DuplicateActionType (to_string type)), s)
            else reserve_keys recur h red keys True
                   (s \<lparr> Actionize_actionTypes :=
                          AList.update (to_string type) (JBool True) (Actionize_actionTypes s) \<rparr>))
         else
           (case recur item s of
              None \<Rightarrow> None
            | Some (Inl e, s') \<Rightarrow> Some (Inl e, s')
            | Some (Inr u, s') \<Rightarrow> reserve_keys recur h red keys reserve s'))
      else reserve_keys recur h red keys reserve s)"

text \<open>
  \<open>_reserveActionTypes(reducer)\<close>.  The recursion follows the properties of the reducer and
  need not end (a reducer may be a property of itself or of one below it), so the depth of
  the calls is bounded: \<open>None\<close> is a walk that went deeper than \<open>depth\<close> calls.  \<open>get(name)\<close>
  calls it once on the reducer that the creator returned, before it keeps that reducer
  under the name.
\<close>

primrec reserveActionTypes ::
  "nat \<Rightarrow> jsobj list \<Rightarrow> jsval \<Rightarrow> actionize \<Rightarrow> ((error + unit) \<times> actionize) option" where
  "reserveActionTypes 0 h red s = None"
| "reserveActionTypes (Suc depth) h red s =
     (if red \<in> set (Actionize_reducersReserved s) then Some (Inr (), s)
      else
        (case reserve_keys (reserveActionTypes depth h) h red (own_keys h red) False s of
           None \<Rightarrow> None
         | Some (Inl e, s') \<Rightarrow> Some (Inl e, s')
         | Some (Inr reserve, s') \<Rightarrow>
             Some (Inr (),
               if reserve
               then s' \<lparr> Actionize_reducersReserved := Actionize_reducersReserved s' @ [red] \<rparr>
               else s')))"

text \<open>The reducers reserved in \<open>s\<close> are reserved in \<open>t\<close>.\<close>

definition grows :: "actionize \<Rightarrow> actionize \<Rightarrow> bool" where
  "grows s t = (set (Actionize_reducersReserved s) \<subseteq> set (Actionize_reducersReserved t))"

text \<open>
  The error names a type that the map of the instance has as a property, its own or an
  inherited one.
\<close>

definition recorded :: "actionize \<Rightarrow> error \<Rightarrow> bool" where
  "recorded s e =
     (case e of
        DuplicateActionType t \<Rightarrow>
          map_of (Actionize_actionTypes s) t \<noteq> None \<or> t \<in> set object_prototype_names
      | _ \<Rightarrow> False)"

section \<open>Example worlds\<close>

text \<open>
  A fresh process; the process after \<open>reducer('counter', 5, {})\<close>, whose heap holds the
  dispatch table at address 0 and the reducer at address 1; and that process with a
  message \<open>{type: t}\<close> at address 2.
\<close>

definition empty_world :: world where
  "empty_world = \<lparr> globals = empty_registry, heap = [] \<rparr>"

definition counter_world :: world where
  "counter_world = snd (reducer (JStr ''counter'') (JNum 5) [] empty_world)"

definition message_world :: "string \<Rightarrow> world" where
  "message_world t =
     counter_world \<lparr> heap := heap counter_world @
       [\<lparr> kind = KObject, props = [(''type'', JStr t)], elems = [] \<rparr>] \<rparr>"

text \<open>
  Two child functions at addresses 0 and 1 and the state \<open>{a: 1, b: 2}\<close> at address 2.
  The children return the state they are given, or, when \<open>change\<close> is set, the second
  returns 7.
\<close>

definition slices_world :: world where
  "slices_world =
     \<lparr> globals = empty_registry,
       heap = [\<lparr> kind = KFunction, props = [], elems = [] \<rparr>,
               \<lparr> kind = KFunction, props = [], elems = [] \<rparr>,
               \<lparr> kind = KObject, props = [(''a'', JNum 1), (''b'', JNum 2)], elems = [] \<rparr>] \<rparr>"

definition slices_call :: "bool \<Rightarrow> calls" where
  "slices_call change = (\<lambda>a state action. ret (if change \<and> a = 1 then JNum 7 else state))"

text \<open>
  The scenario of nesting: the objects \<open>{p: 1}\<close> and \<open>{c: 2}\<close> at addresses 0 and 1, then
  \<open>parent = reducer('parent', {p: 1}, {})\<close> at address 3 (its table at 2) and
  \<open>child = reducer('child', {c: 2}, {})\<close> at address 5 (its table at 4).  Calling either
  function runs \<open>reducerFunc\<close> with its initial state and its table.
\<close>

definition nest_world :: world where
  "nest_world =
     snd (reducer (JStr ''child'') (JRef 1) []
       (snd (reducer (JStr ''parent'') (JRef 0) []
          \<lparr> globals = empty_registry,
            heap = [\<lparr> kind = KObject, props = [(''p'', JNum 1)], elems = [] \<rparr>,
                    \<lparr> kind = KObject, props = [(''c'', JNum 2)], elems = [] \<rparr>] \<rparr>)))"

definition nest_call_of :: calls where
  "nest_call_of =
     (\<lambda>a. if a = 3 then reducerFunc (\<lambda>a state action. throw TypeError) (JRef 0) (JRef 2)
          else if a = 5 then reducerFunc (\<lambda>a state action. throw TypeError) (JRef 1) (JRef 4)
          else (\<lambda>state action. throw TypeError))"

text \<open>
  A parent function at address 1 with one action \<open>a1\<close> (the function at address 0, whose
  type is \<open>|foo:a1\<close>), a number and a function without type as further properties, and a
  child function at address 3.
\<close>

definition expose_world :: world where
  "expose_world =
     \<lparr> globals = empty_registry,
       heap = [\<lparr> kind = KFunction, props = [(''type'', JStr ''|foo:a1'')], elems = [] \<rparr>,
               \<lparr> kind = KFunction,
                 props = [(''a1'', JRef 0), (''noCopy1'', JNum 123), (''noCopy2'', JRef 2)],
                 elems = [] \<rparr>,
               \<lparr> kind = KFunction, props = [], elems = [] \<rparr>,
               \<lparr> kind = KFunction, props = [], elems = [] \<rparr>] \<rparr>"


text \<open>
  A handler function at address 0 and a plain object at address 1, and the action map of
  the test of \<open>ActionizeBuild\<close>: one handler and four values that are no functions.
\<close>

definition ignore_world :: world where
  "ignore_world =
     \<lparr> globals = empty_registry,
       heap = [\<lparr> kind = KFunction, props = [], elems = [] \<rparr>,
               \<lparr> kind = KObject, props = [], elems = [] \<rparr>] \<rparr>"

definition ignore_actions :: "(string \<times> jsval) list" where
  "ignore_actions =
     [(''setBar'', JRef 0), (''notAFunction1'', JNum 123), (''notAFunction2'', JRef 1),
      (''notAFunction3'', JBool True), (''notAFunction4'', JStr ''yo'')]"


text \<open>
  A reducer at address 0 whose property \<open>reset\<close> is the function at address 1, which has the
  type \<open>t\<close>.
\<close>

definition typed_world :: "string \<Rightarrow> jsobj list" where
  "typed_world t =
     [\<lparr> kind = KFunction, props = [(''reset'', JRef 1)], elems = [] \<rparr>,
      \<lparr> kind = KFunction, props = [(''type'', JStr t)], elems = [] \<rparr>]"

section \<open>Decimal rendering\<close>

lemma digit_char_inj:
  assumes "a < 10" and "b < 10" and "digit_char a = digit_char b"
  shows "a = b"
proof -
  from assms(3) have "(of_char (digit_char a) :: nat) = of_char (digit_char b)"
    by simp
  with assms(1,2) show ?thesis
    by (simp add: digit_char_def)
qed

lemma decimal_nonempty:
  "decimal n \<noteq> []" "[] \<noteq> decimal n"
  by (subst decimal.simps, simp)+

lemma decimal_inj:
  "decimal m = decimal n \<Longrightarrow> m = n"
proof (induction m arbitrary: n rule: decimal.induct)
  case (1 m)
  show ?case
  proof (cases "m < 10")
    case True
    note small = this
    show ?thesis
    proof (cases "n < 10")
      case True
      with small "1.prems" show ?thesis
        by (simp add: decimal.simps [of m] decimal.simps [of n] digit_char_inj)
    next
      case False
      with small "1.prems" show ?thesis
        by (simp add: decimal.simps [of m] decimal.simps [of n]
            decimal_nonempty)
    qed
  next
    case False
    note big = this
    show ?thesis
    proof (cases "n < 10")
      case True
      with big "1.prems" show ?thesis
        by (simp add: decimal.simps [of m] decimal.simps [of n]
            decimal_nonempty)
    next
      case False
      with big "1.prems" have front: "decimal (m div 10) = decimal (n div 10)"
        and lastd: "digit_char (m mod 10) = digit_char (n mod 10)"
        by (simp_all add: decimal.simps [of m] decimal.simps [of n])
      from "1.IH" [OF big front] have q: "m div 10 = n div 10" .
      from lastd have r: "m mod 10 = n mod 10"
        by (auto intro: digit_char_inj)
      from q r show ?thesis
        by (metis div_mult_mod_eq)
    qed
  qed
qed

section \<open>Allocation of action types\<close>

lemma namespace_match_iff: "namespace_match s \<longleftrightarrow> (CHR ''#'' \<in> set s \<or> CHR '':'' \<in> set s \<or> CHR ''|'' \<in> set s)"
  by (auto simp: namespace_match_def list_ex_iff)

lemma key_match_iff: "key_match s \<longleftrightarrow> (CHR ''#'' \<in> set s \<or> CHR '':'' \<in> set s \<or> CHR ''.'' \<in> set s \<or> CHR ''|'' \<in> set s)"
  by (auto simp: key_match_def list_ex_iff)

lemma first_split_unique:
  "x \<notin> set a \<Longrightarrow> x \<notin> set b \<Longrightarrow> a @ x # k = b @ x # l \<Longrightarrow> a = b \<and> k = l"
proof (induction a arbitrary: b)
  case Nil
  then show ?case by (cases b) auto
next
  case (Cons y a)
  then show ?case by (cases b) auto
qed

lemma prefix_inj:
  assumes "\<not> namespace_match a" and "\<not> namespace_match b"
    and "a @ '':'' @ k = b @ '':'' @ l"
  shows "a = b \<and> k = l"
proof -
  from assms(1,2) have "CHR '':'' \<notin> set a" "CHR '':'' \<notin> set b"
    by (simp_all add: namespace_match_iff)
  with assms(3) show ?thesis
    using first_split_unique [of "CHR '':''" a b k l] by simp
qed

lemma createActionType_ticks:
  "actionTypeTicks (snd (createActionType reg namespace key)) p =
     (case namespace of
        JStr ns \<Rightarrow>
          if \<not> namespace_match ns \<and> key \<noteq> [] \<and> \<not> key_match key \<and> p = ns @ '':'' @ key
          then Some ((case actionTypeTicks reg p of None \<Rightarrow> 0 | Some n \<Rightarrow> n) + 1)
          else actionTypeTicks reg p
      | _ \<Rightarrow> actionTypeTicks reg p)"
  by (simp add: createActionType_def Let_def split: jsval.splits)

lemma registry_after_snoc:
  "registry_after (reqs @ [(namespace, key)]) =
     snd (createActionType (registry_after reqs) namespace key)"
  by (simp add: registry_after_def)

lemma createActionType_ticks_other:
  assumes "\<not> namespace_match ns" and "\<not> (namespace = JStr ns \<and> k = key)"
  shows "actionTypeTicks (snd (createActionType reg namespace k)) (ns @ '':'' @ key) =
         actionTypeTicks reg (ns @ '':'' @ key)"
proof (cases namespace)
  case (JStr ns')
  have "\<not> (\<not> namespace_match ns' \<and> k \<noteq> [] \<and> \<not> key_match k \<and>
            ns @ '':'' @ key = ns' @ '':'' @ k)"
  proof
    assume h: "\<not> namespace_match ns' \<and> k \<noteq> [] \<and> \<not> key_match k \<and>
            ns @ '':'' @ key = ns' @ '':'' @ k"
    with assms(1) have "ns = ns' \<and> key = k"
      by (intro prefix_inj) simp_all
    with assms(2) JStr show False by simp
  qed
  with JStr show ?thesis
    by (simp only: createActionType_ticks jsval.case if_False)
qed (simp_all add: createActionType_ticks)

lemma registry_after_ticks:
  assumes "\<not> namespace_match ns" and "key \<noteq> []" and "\<not> key_match key"
  shows "actionTypeTicks (registry_after reqs) (ns @ '':'' @ key) =
     (if count_list reqs (JStr ns, key) = 0 then None
      else Some (count_list reqs (JStr ns, key)))"
proof (induction reqs rule: rev_induct)
  case Nil
  show ?case by (simp add: registry_after_def empty_registry_def)
next
  case (snoc r reqs)
  obtain namespace k where r: "r = (namespace, k)" by (cases r)
  show ?case
  proof (cases "namespace = JStr ns \<and> k = key")
    case True
    with assms snoc r show ?thesis
      by (simp add: registry_after_snoc createActionType_ticks)
  next
    case False
    from createActionType_ticks_other [OF assms(1) False]
    have "actionTypeTicks (registry_after (reqs @ [r])) (ns @ '':'' @ key) =
          actionTypeTicks (registry_after reqs) (ns @ '':'' @ key)"
      by (simp only: r registry_after_snoc)
    moreover from False r have "count_list (reqs @ [r]) (JStr ns, key) = count_list reqs (JStr ns, key)"
      by auto
    ultimately show ?thesis using snoc by simp
  qed
qed

lemma createActionType_counter:
  assumes "\<not> namespace_match ns" and "key \<noteq> []" and "\<not> key_match key"
  shows "fst (createActionType (registry_after reqs) (JStr ns) key) =
           Inr (''|'' @ ns @ '':'' @ key @
                (if count_list reqs (JStr ns, key) = 0 then []
                 else ''#'' @ decimal (count_list reqs (JStr ns, key) + 1)))"
  using assms registry_after_ticks [OF assms, of reqs]
  by (simp add: createActionType_def Let_def)

text \<open>
  C1.  Take any history \<open>reqs\<close> of earlier allocation requests and a valid pair.  When the
  pair was not requested before, the allocation returns \<open>|namespace:key\<close>; when it was
  requested \<open>c\<close> times before, it returns that string followed by \<open>#\<close> and \<open>c + 1\<close> in
  decimal (so \<open>#2\<close> the second time, \<open>#3\<close> the third).  It always returns, never throws,
  and allocations of the pair after different numbers of earlier ones return different
  strings.
\<close>

theorem createActionType_repeated:
  assumes "\<not> namespace_match ns" and "key \<noteq> []" and "\<not> key_match key"
  shows "fst (createActionType (registry_after reqs) (JStr ns) key) =
           Inr (''|'' @ ns @ '':'' @ key @
                (if count_list reqs (JStr ns, key) = 0 then []
                 else ''#'' @ decimal (count_list reqs (JStr ns, key) + 1)))
         \<and> (count_list reqs (JStr ns, key) \<noteq> count_list reqs' (JStr ns, key) \<longrightarrow>
              fst (createActionType (registry_after reqs) (JStr ns) key) \<noteq>
              fst (createActionType (registry_after reqs') (JStr ns) key))"
proof -
  let ?c = "count_list reqs (JStr ns, key)" and ?d = "count_list reqs' (JStr ns, key)"
  let ?suffix = "\<lambda>c. if c = 0 then [] else ''#'' @ decimal (c + 1)"
  have "?suffix ?c \<noteq> ?suffix ?d" if "?c \<noteq> ?d"
    using that decimal_inj [of "?c + 1" "?d + 1"] by auto
  then show ?thesis
    by (simp only: createActionType_counter [OF assms]) simp
qed

theorem createActionType_repeated_witness:
  "\<not> namespace_match ''todos'' \<and> ''add'' \<noteq> [] \<and> \<not> key_match ''add'' \<and>
   fst (createActionType (registry_after []) (JStr ''todos'') ''add'') = Inr ''|todos:add'' \<and>
   fst (createActionType
          (registry_after [(JStr ''todos'', ''add''), (JStr ''user'', ''add''), (JStr ''todos'', ''add'')])
          (JStr ''todos'') ''add'') = Inr ''|todos:add#3'' \<and>
   fst (createActionType (registry_after [(JStr ''todos'', ''add'')]) (JStr ''todos'') ''add'') \<noteq>
   fst (createActionType (registry_after []) (JStr ''todos'') ''add'')"
proof -
  have v: "\<not> namespace_match ''todos''" "''add'' \<noteq> []" "\<not> key_match ''add''"
    by (simp_all add: namespace_match_def key_match_def)
  have three: "decimal (Suc (Suc (Suc 0))) = ''3''"
    by code_simp
  from createActionType_repeated [OF v, of "[]" "[]"]
    createActionType_repeated [OF v,
      of "[(JStr ''todos'', ''add''), (JStr ''user'', ''add''), (JStr ''todos'', ''add'')]" "[]"]
    createActionType_repeated [OF v, of "[(JStr ''todos'', ''add'')]" "[]"]
  show ?thesis
    using v three by simp
qed

text \<open>
  C6.  A namespace that is not a string, or that contains \<open>|\<close>, \<open>:\<close> or \<open>#\<close>, makes the
  allocation throw the namespace error; with a good namespace, a key that is empty or
  contains \<open>|\<close>, \<open>:\<close>, \<open>#\<close> or \<open>.\<close> makes it throw the key error; such a key makes it
  throw whatever the namespace is.  Each time the registry (counters and issued types) is
  left exactly as it was and no type is returned.
\<close>

theorem createActionType_rejects:
  "((\<forall>s. namespace \<noteq> JStr s) \<longrightarrow>
      createActionType reg namespace key = (Inl NamespaceNotString, reg)) \<and>
   (namespace_match ns \<longrightarrow>
      createActionType reg (JStr ns) key = (Inl NamespaceReserved, reg)) \<and>
   (\<not> namespace_match ns \<longrightarrow> key = [] \<or> key_match key \<longrightarrow>
      createActionType reg (JStr ns) key = (Inl KeyInvalid, reg)) \<and>
   (key = [] \<or> key_match key \<longrightarrow>
      (\<exists>e. createActionType reg namespace key = (Inl e, reg)))"
  by (cases namespace) (simp_all add: createActionType_def)

theorem createActionType_rejects_witness:
  "(\<forall>s. JNum 5 \<noteq> JStr s) \<and>
   createActionType empty_registry (JNum 5) ''a.b'' = (Inl NamespaceNotString, empty_registry) \<and>
   namespace_match ''foo:bar'' \<and>
   createActionType empty_registry (JStr ''foo:bar'') ''a.b'' = (Inl NamespaceReserved, empty_registry) \<and>
   \<not> namespace_match ''red3'' \<and> key_match ''a.b'' \<and>
   createActionType empty_registry (JStr ''red3'') ''a.b'' = (Inl KeyInvalid, empty_registry)"
proof -
  have h: "\<forall>s. JNum 5 \<noteq> JStr s" "namespace_match ''foo:bar''"
    "\<not> namespace_match ''red3''" "key_match ''a.b''"
    by (simp_all add: namespace_match_def key_match_def)
  from createActionType_rejects [of "JNum 5" empty_registry "''a.b''" "''foo:bar''"]
    createActionType_rejects [of "JStr ''red3''" empty_registry "''a.b''" "''red3''"]
  show ?thesis using h by simp
qed

section \<open>Every allocated type is new\<close>










section \<open>Dispatch by the reducer of index.js\<close>

lemma reducer_empty:
  "reducer namespace initialState [] w =
     (Inr (JRef (Suc (length (heap w)))),
      w \<lparr> heap := heap w @
          [\<lparr> kind = KObject, props = [], elems = [] \<rparr>,
           \<lparr> kind = KFunction,
             props = [(''_actionizeNamespace'', namespace),
                      (''_actionizeHandlers'', JRef (length (heap w)))],
             elems = [] \<rparr>] \<rparr>)"
  by (simp add: reducer_def bind_def alloc_def ret_def assign_prop_def
      function_readonly_names_def nth_append)

lemma reducerFunc_falsy_handlers:
  assumes "\<not> truthy action \<or> \<not> truthy (get_prop (heap w) action ''type'') \<or>
           \<not> truthy (get_prop (heap w) actionHandlers (to_string (get_prop (heap w) action ''type'')))"
  shows "reducerFunc call initialState actionHandlers state action w =
           (Inr (if state = JUndefined then initialState else state), w)"
  using assms by (auto simp: reducerFunc_def Let_def)

lemma get_prop_absent:
  assumes "k \<notin> set (own_keys h v)" and "k \<notin> set object_prototype_names"
  shows "get_prop h v k = JUndefined"
proof -
  have "(case v of JRef a \<Rightarrow> (if a < length h then map_of (props (h ! a)) k else None) | _ \<Rightarrow> None) = None"
    using assms(1) by (auto simp: own_keys_def map_of_eq_None_iff split: jsval.splits)
  with assms(2) show ?thesis by (simp add: get_prop_def)
qed

text \<open>
  What the dispatch does with a message it has no handler for.  When the message is falsy,
  or its type is missing or falsy, or the dispatch table has no entry for the type and the
  type does not name a member inherited from \<open>Object.prototype\<close>, the reducer returns the
  state and changes nothing, where a state that is \<open>undefined\<close> stands for the initial
  state.  A reducer built from an empty action map and called with no arguments returns
  its initial state.
\<close>

lemma reducerFunc_unhandled:
  "(\<not> truthy action \<or> \<not> truthy (get_prop (heap w) action ''type'') \<or>
     (to_string (get_prop (heap w) action ''type'') \<notin> set (own_keys (heap w) actionHandlers) \<and>
      to_string (get_prop (heap w) action ''type'') \<notin> set object_prototype_names)
    \<longrightarrow> reducerFunc call initialState actionHandlers state action w =
          (Inr (if state = JUndefined then initialState else state), w)) \<and>
   (case reducer namespace initialState [] w of (r, w') \<Rightarrow>
      r = Inr (JRef (Suc (length (heap w)))) \<and>
      get_prop (heap w') (JRef (Suc (length (heap w)))) ''_actionizeHandlers'' = JRef (length (heap w)) \<and>
      reducerFunc call initialState (JRef (length (heap w))) JUndefined JUndefined w' =
        (Inr initialState, w'))"
proof (intro conjI impI)
  assume h: "\<not> truthy action \<or> \<not> truthy (get_prop (heap w) action ''type'') \<or>
     (to_string (get_prop (heap w) action ''type'') \<notin> set (own_keys (heap w) actionHandlers) \<and>
      to_string (get_prop (heap w) action ''type'') \<notin> set object_prototype_names)"
  have "\<not> truthy action \<or> \<not> truthy (get_prop (heap w) action ''type'') \<or>
           \<not> truthy (get_prop (heap w) actionHandlers (to_string (get_prop (heap w) action ''type'')))"
    using h get_prop_absent [of "to_string (get_prop (heap w) action ''type'')" "heap w" actionHandlers]
    by auto
  then show "reducerFunc call initialState actionHandlers state action w =
          (Inr (if state = JUndefined then initialState else state), w)"
    by (rule reducerFunc_falsy_handlers)
next
  show "case reducer namespace initialState [] w of (r, w') \<Rightarrow>
      r = Inr (JRef (Suc (length (heap w)))) \<and>
      get_prop (heap w') (JRef (Suc (length (heap w)))) ''_actionizeHandlers'' = JRef (length (heap w)) \<and>
      reducerFunc call initialState (JRef (length (heap w))) JUndefined JUndefined w' =
        (Inr initialState, w')"
    by (simp add: reducer_empty reducerFunc_falsy_handlers get_prop_def nth_append)
qed


lemma counter_world_heap:
  "heap counter_world =
     [\<lparr> kind = KObject, props = [], elems = [] \<rparr>,
      \<lparr> kind = KFunction,
        props = [(''_actionizeNamespace'', JStr ''counter''), (''_actionizeHandlers'', JRef 0)],
        elems = [] \<rparr>]"
  by (simp add: counter_world_def reducer_empty empty_world_def)

text \<open>
  C3.  The reducer is to return the state it was given whenever no handler is registered
  for the type of the message.  The code does not for a type that names a member every
  object inherits: the reducer \<open>reducer('counter', 5, {})\<close> has an empty dispatch table
  (the object at address 0), and called with the state \<open>'given'\<close> and the message
  \<open>{type: 'constructor'}\<close> it throws a \<open>TypeError\<close>, because the lookup in the table finds
  the inherited constructor, which is truthy and has no \<open>forEach\<close>.
\<close>

theorem reducerFunc_inherited_type_throws:
  "get_prop (heap counter_world) (JRef 1) ''_actionizeHandlers'' = JRef 0 \<and>
   own_keys (heap (message_world ''constructor'')) (JRef 0) = [] \<and>
   get_prop (heap (message_world ''constructor'')) (JRef 2) ''type'' = JStr ''constructor'' \<and>
   reducerFunc (\<lambda>a state action. ret state) (JNum 5) (JRef 0) (JStr ''given'') (JRef 2)
       (message_world ''constructor'') = (Inl TypeError, message_world ''constructor'')"
  by (simp add: reducerFunc_def message_world_def counter_world_heap get_prop_def own_keys_def
      object_prototype_names_def)

section \<open>The combined reducer\<close>

lemma update_fresh:
  "k \<notin> fst ` set al \<Longrightarrow> AList.update k v al = al @ [(k, v)]"
  by (induction al) auto

lemma values_of_runs:
  "distinct (map fst vs @ map fst runs) \<Longrightarrow>
   foldl (\<lambda>vs r. AList.update (fst r) (snd (snd r)) vs) vs runs =
     vs @ map (\<lambda>r. (fst r, snd (snd r))) runs"
proof (induction runs arbitrary: vs)
  case Nil
  show ?case by simp
next
  case (Cons r runs)
  from Cons.prems have fresh: "fst r \<notin> fst ` set vs"
    by auto
  from Cons.prems have "distinct (map fst (vs @ [(fst r, snd (snd r))]) @ map fst runs)"
    by auto
  from Cons.IH [OF this] fresh show ?case
    by (simp add: update_fresh)
qed

lemma combine_loop_runs:
  "combine_loop call pick state action entries (u, vs) w =
     (case child_runs call pick state action entries w of
        (Inl e, w1) \<Rightarrow> (Inl e, w1)
      | (Inr runs, w1) \<Rightarrow>
          (Inr (u \<or> (\<exists>r\<in>set runs. fst (snd r) \<noteq> snd (snd r)),
                foldl (\<lambda>vs r. AList.update (fst r) (snd (snd r)) vs) vs runs), w1))"
proof (induction entries arbitrary: u vs w)
  case Nil
  show ?case by (simp add: ret_def)
next
  case (Cons entry entries)
  obtain key child where entry: "entry = (key, child)" by (cases entry)
  show ?case
    by (auto simp: entry combine_child_def bind_def ret_def Cons.IH
        split: prod.splits sum.splits)
qed

lemma child_runs_keys:
  "child_runs call pick state action entries w = (Inr runs, w1) \<Longrightarrow>
   map fst runs = map fst entries"
proof (induction entries arbitrary: runs w w1)
  case Nil
  then show ?case by (simp add: ret_def)
next
  case (Cons entry entries)
  obtain key child where entry: "entry = (key, child)" by (cases entry)
  from Cons.prems show ?case
    by (auto simp: entry bind_def ret_def split: prod.splits sum.splits dest: Cons.IH)
qed

text \<open>
  C2.  Take one call of the combined reducer in which \<open>pick\<close> and every child return, and
  let \<open>runs\<close> be what each child was given and what it returned, key by key.  If every
  child returned the very value it was given, the combined reducer returns the state it
  was given, and leaves the world as the children left it: nothing of \<open>join\<close> is in the
  result, whatever \<open>join\<close> is.  If some child returned another value, the result is that
  of \<open>join(state, values)\<close>, where \<open>values\<close> is a new object that has, for every child
  key in order, what that child returned.  The same holds for the function of
  \<open>ActionizeBuild.combine\<close>, whose body is the same.
\<close>

theorem combine_call_contract:
  assumes "child_runs call pick state action reducers w = (Inr runs, w1)"
    and "distinct (map fst reducers)"
  shows "map fst runs = map fst reducers \<and>
     ((\<forall>r\<in>set runs. fst (snd r) = snd (snd r)) \<longrightarrow>
        combine_call call reducers pick join state action w = (Inr state, w1)) \<and>
     ((\<exists>r\<in>set runs. fst (snd r) \<noteq> snd (snd r)) \<longrightarrow>
        combine_call call reducers pick join state action w =
          join state (JRef (length (heap w1)))
            (w1 \<lparr> heap := heap w1 @
               [\<lparr> kind = KObject, props = map (\<lambda>r. (fst r, snd (snd r))) runs, elems = [] \<rparr>] \<rparr>))"
proof -
  have keys: "map fst runs = map fst reducers"
    using assms(1) by (rule child_runs_keys)
  with assms(2) have "distinct (map fst ([] :: (string \<times> jsval) list) @ map fst runs)"
    by simp
  from values_of_runs [OF this]
  have vals: "foldl (\<lambda>vs r. AList.update (fst r) (snd (snd r)) vs) [] runs =
     map (\<lambda>r. (fst r, snd (snd r))) runs"
    by simp
  have loop: "combine_loop call pick state action reducers (False, []) w =
     (Inr ((\<exists>r\<in>set runs. fst (snd r) \<noteq> snd (snd r)),
           map (\<lambda>r. (fst r, snd (snd r))) runs), w1)"
    by (simp add: combine_loop_runs assms(1) vals)
  show ?thesis
    using keys by (auto simp: combine_call_def bind_def loop ret_def alloc_object_def)
qed


lemma slices_runs:
  "child_runs (slices_call change) plain_pick (JRef 2) JUndefined
     [(''a'', JRef 0), (''b'', JRef 1)] slices_world =
   (Inr [(''a'', JNum 1, JNum 1), (''b'', JNum 2, if change then JNum 7 else JNum 2)],
    slices_world)"
  by (simp add: slices_world_def slices_call_def plain_pick_def bind_def ret_def
      call_value_def is_function_def get_prop_def)

theorem combine_call_contract_witness:
  "child_runs (slices_call False) plain_pick (JRef 2) JUndefined
     [(''a'', JRef 0), (''b'', JRef 1)] slices_world =
     (Inr [(''a'', JNum 1, JNum 1), (''b'', JNum 2, JNum 2)], slices_world) \<and>
   combine_call (slices_call False) [(''a'', JRef 0), (''b'', JRef 1)] plain_pick
     combine_plain_join (JRef 2) JUndefined slices_world = (Inr (JRef 2), slices_world) \<and>
   child_runs (slices_call True) plain_pick (JRef 2) JUndefined
     [(''a'', JRef 0), (''b'', JRef 1)] slices_world =
     (Inr [(''a'', JNum 1, JNum 1), (''b'', JNum 2, JNum 7)], slices_world) \<and>
   combine_call (slices_call True) [(''a'', JRef 0), (''b'', JRef 1)] plain_pick
     combine_plain_join (JRef 2) JUndefined slices_world =
     (Inr (JRef 3),
      slices_world \<lparr> heap := heap slices_world @
        [\<lparr> kind = KObject, props = [(''a'', JNum 1), (''b'', JNum 7)], elems = [] \<rparr>] \<rparr>)"
proof -
  have d: "distinct (map fst [(''a'', JRef 0), (''b'', JRef 1)])"
    by simp
  have three: "length (heap slices_world) = 3"
    by (simp add: slices_world_def)
  have a: "combine_call (slices_call False) [(''a'', JRef 0), (''b'', JRef 1)] plain_pick
     combine_plain_join (JRef 2) JUndefined slices_world = (Inr (JRef 2), slices_world)"
    using combine_call_contract [OF slices_runs [of False] d, of combine_plain_join]
    by simp
  have b: "combine_call (slices_call True) [(''a'', JRef 0), (''b'', JRef 1)] plain_pick
     combine_plain_join (JRef 2) JUndefined slices_world =
     (Inr (JRef 3),
      slices_world \<lparr> heap := heap slices_world @
        [\<lparr> kind = KObject, props = [(''a'', JNum 1), (''b'', JNum 7)], elems = [] \<rparr>] \<rparr>)"
    using combine_call_contract [OF slices_runs [of True] d, of combine_plain_join]
    by (simp add: combine_plain_join_def ret_def three)
  from slices_runs [of False] slices_runs [of True] a b show ?thesis
    by (simp only: if_True if_False simp_thms)
qed

section \<open>The nested reducer\<close>

lemma nest_world_heap:
  "heap nest_world =
     [\<lparr> kind = KObject, props = [(''p'', JNum 1)], elems = [] \<rparr>,
      \<lparr> kind = KObject, props = [(''c'', JNum 2)], elems = [] \<rparr>,
      \<lparr> kind = KObject, props = [], elems = [] \<rparr>,
      \<lparr> kind = KFunction,
        props = [(''_actionizeNamespace'', JStr ''parent''), (''_actionizeHandlers'', JRef 2)],
        elems = [] \<rparr>,
      \<lparr> kind = KObject, props = [], elems = [] \<rparr>,
      \<lparr> kind = KFunction,
        props = [(''_actionizeNamespace'', JStr ''child''), (''_actionizeHandlers'', JRef 4)],
        elems = [] \<rparr>]"
  by (simp add: nest_world_def reducer_empty)

lemma nest_call_unfold:
  "nest_call call parent reducers pick join state action w =
     (case call_value call parent state action w of
        (Inl e, w1) \<Rightarrow> (Inl e, w1)
      | (Inr parentState, w1) \<Rightarrow> combine_call call reducers pick join parentState action w1)"
  by (simp add: nest_call_def bind_def)

lemma nest_scenario:
   "nest_call nest_call_of (JRef 3) [(''c'', JRef 5)] plain_pick nest_plain_join
      JUndefined JUndefined nest_world =
     (Inr (JRef 7),
      nest_world \<lparr> heap := heap nest_world @
        [\<lparr> kind = KObject, props = [(''c'', JRef 1)], elems = [] \<rparr>,
         \<lparr> kind = KObject, props = [(''p'', JNum 1), (''c'', JRef 1)], elems = [] \<rparr>] \<rparr>)"
  by (simp add: nest_call_def combine_call_def combine_child_def bind_def ret_def call_value_def
      is_function_def nest_world_heap nest_call_of_def reducerFunc_def plain_pick_def
      get_prop_def object_prototype_names_def alloc_object_def nest_plain_join_def
      Object_assign_def enumerable_props_def)

text \<open>
  C8.  The function \<open>nest\<close> returns calls the parent first; if the parent throws, so does
  it, and otherwise the result is that of the combined reducer of the children on the state
  the parent returned, with the same message, in the world the parent left.  Under the
  plain policy, \<open>nest.plain(parent, {c: child})()\<close> with the initial states \<open>{p: 1}\<close> and
  \<open>{c: 2}\<close> returns a new object \<open>{p: 1, c: child's initial state}\<close>, and that state is the
  object \<open>{c: 2}\<close>.
\<close>

theorem nest_call_parent_first:
  "nest_call call parent reducers pick join state action w =
     (case call_value call parent state action w of
        (Inl e, w1) \<Rightarrow> (Inl e, w1)
      | (Inr parentState, w1) \<Rightarrow> combine_call call reducers pick join parentState action w1) \<and>
   nest_call nest_call_of (JRef 3) [(''c'', JRef 5)] plain_pick nest_plain_join
      JUndefined JUndefined nest_world =
     (Inr (JRef 7),
      nest_world \<lparr> heap := heap nest_world @
        [\<lparr> kind = KObject, props = [(''c'', JRef 1)], elems = [] \<rparr>,
         \<lparr> kind = KObject, props = [(''p'', JNum 1), (''c'', JRef 1)], elems = [] \<rparr>] \<rparr>) \<and>
   heap nest_world ! 1 = \<lparr> kind = KObject, props = [(''c'', JNum 2)], elems = [] \<rparr>"
  using nest_call_unfold [of call parent reducers pick join state action w] nest_scenario
  by (simp only: nest_world_heap nth_Cons_Suc nth_Cons_0 One_nat_def simp_thms)

section \<open>The properties of combined and nested reducers\<close>

lemma update_all_fresh:
  "distinct (map fst ps @ map fst es) \<Longrightarrow>
   foldl (\<lambda>ps kv. AList.update (fst kv) (snd kv) ps) ps es = ps @ es"
proof (induction es arbitrary: ps)
  case Nil
  show ?case by simp
next
  case (Cons e es)
  from Cons.prems have fresh: "fst e \<notin> fst ` set ps"
    by auto
  from Cons.prems have "distinct (map fst (ps @ [e]) @ map fst es)"
    by auto
  from Cons.IH [OF this] fresh show ?case
    by (simp add: update_fresh)
qed

lemma map_of_update_all:
  "map_of (foldl (\<lambda>ps kv. AList.update (fst kv) (snd kv) ps) ps es) k =
     (case map_of (rev es) k of Some v \<Rightarrow> Some v | None \<Rightarrow> map_of ps k)"
proof (induction es arbitrary: ps)
  case Nil
  show ?case by simp
next
  case (Cons e es)
  show ?case
    by (simp add: Cons.IH update_conv' map_add_def split: option.splits)
qed

text \<open>Assigning a list of properties to one function, none of them read-only.\<close>

lemma forEach_assign_props:
  assumes "a < length (heap w)" and "kind (heap w ! a) = KFunction"
    and "\<forall>k\<in>set (map fst es). k \<notin> set function_readonly_names"
  shows "forEach es (\<lambda>entry. case entry of (key, r) \<Rightarrow> assign_prop (JRef a) key r) w =
     (Inr (), w \<lparr> heap := (heap w)[a := (heap w ! a)
        \<lparr> props := foldl (\<lambda>ps kv. AList.update (fst kv) (snd kv) ps) (props (heap w ! a)) es \<rparr>] \<rparr>)"
  using assms
proof (induction es arbitrary: w)
  case Nil
  then show ?case by (simp add: ret_def)
next
  case (Cons e es)
  obtain key r where e: "e = (key, r)" by (cases e)
  let ?w = "w \<lparr> heap := (heap w)[a := (heap w ! a) \<lparr> props := AList.update key r (props (heap w ! a)) \<rparr>] \<rparr>"
  from Cons.prems e have step: "assign_prop (JRef a) key r w = (Inr (), ?w)"
    by (simp add: assign_prop_def Let_def)
  have "a < length (heap ?w)" "kind (heap ?w ! a) = KFunction"
    "\<forall>k\<in>set (map fst es). k \<notin> set function_readonly_names"
    using Cons.prems by simp_all
  from Cons.IH [OF this] Cons.prems(1) show ?case
    by (simp add: e bind_def step)
qed

lemma ActionizeBuild_combine_result:
  assumes "distinct (map fst reducers)"
    and "\<forall>k\<in>set (map fst reducers). k \<notin> set function_readonly_names"
  shows "ActionizeBuild_combine reducers w =
     (Inr (JRef (length (heap w))),
      w \<lparr> heap := heap w @ [\<lparr> kind = KFunction, props = reducers, elems = [] \<rparr>] \<rparr>)"
proof -
  let ?w = "w \<lparr> heap := heap w @ [\<lparr> kind = KFunction, props = [], elems = [] \<rparr>] \<rparr>"
  have "a < length (heap ?w)" "kind (heap ?w ! a) = KFunction" if "a = length (heap w)" for a
    using that by simp_all
  from forEach_assign_props [OF this assms(2)] assms(1)
  show ?thesis
    by (simp add: ActionizeBuild_combine_def bind_def alloc_def ret_def update_all_fresh)
qed


lemma get_prop_other:
  "v \<noteq> JRef b \<Longrightarrow> get_prop (h[b := x]) v k = get_prop h v k"
  by (cases v) (simp_all add: get_prop_def)

lemma is_function_same_kind:
  "b < length h \<Longrightarrow> kind x = kind (h ! b) \<Longrightarrow> is_function (h[b := x]) v = is_function h v"
  by (cases v) (auto simp: is_function_def nth_list_update)

lemma copy_props:
  assumes "a \<noteq> b" and "b < length (heap w)" and "kind (heap w ! b) = KFunction"
    and "\<forall>k\<in>set ks. k \<notin> set function_readonly_names"
  shows "forEach ks (\<lambda>key w'. assign_prop (JRef b) key (get_prop (heap w') (JRef a) key) w') w =
     (Inr (), w \<lparr> heap := (heap w)[b := (heap w ! b)
        \<lparr> props := foldl (\<lambda>ps kv. AList.update (fst kv) (snd kv) ps) (props (heap w ! b))
             (map (\<lambda>k. (k, get_prop (heap w) (JRef a) k)) ks) \<rparr>] \<rparr>)"
  using assms
proof (induction ks arbitrary: w)
  case Nil
  then show ?case by (simp add: ret_def)
next
  case (Cons key ks)
  let ?r = "get_prop (heap w) (JRef a) key"
  let ?w = "w \<lparr> heap := (heap w)[b := (heap w ! b) \<lparr> props := AList.update key ?r (props (heap w ! b)) \<rparr>] \<rparr>"
  from Cons.prems have step: "assign_prop (JRef b) key ?r w = (Inr (), ?w)"
    by (simp add: assign_prop_def Let_def)
  have same: "get_prop (heap ?w) (JRef a) k = get_prop (heap w) (JRef a) k" for k
    using Cons.prems(1) by (simp add: get_prop_other)
  have "a \<noteq> b" "b < length (heap ?w)" "kind (heap ?w ! b) = KFunction"
    "\<forall>k\<in>set ks. k \<notin> set function_readonly_names"
    using Cons.prems by simp_all
  from Cons.IH [OF this] Cons.prems(1,2) show ?case
    by (simp add: bind_def step get_prop_other)
qed

lemma copy_actions:
  assumes "p \<noteq> b" and "b < length (heap w)" and "kind (heap w ! b) = KFunction"
    and "\<forall>k\<in>set ks. k \<notin> set function_readonly_names"
    and "\<forall>k\<in>set ks. get_prop (heap w) (JRef p) k \<noteq> JRef b"
  shows "forEach ks (copy_action (JRef p) (JRef b)) w =
     (Inr (), w \<lparr> heap := (heap w)[b := (heap w ! b)
        \<lparr> props := foldl (\<lambda>ps kv. AList.update (fst kv) (snd kv) ps) (props (heap w ! b))
             (map (\<lambda>k. (k, get_prop (heap w) (JRef p) k))
                (filter (\<lambda>k. is_action (heap w) (get_prop (heap w) (JRef p) k)) ks)) \<rparr>] \<rparr>)"
  using assms
proof (induction ks arbitrary: w)
  case Nil
  then show ?case by (simp add: ret_def)
next
  case (Cons key ks)
  let ?r = "get_prop (heap w) (JRef p) key"
  show ?case
  proof (cases "is_action (heap w) ?r")
    case False
    then have step: "copy_action (JRef p) (JRef b) key w = (Inr (), w)"
      by (simp add: copy_action_def Let_def)
    from Cons.IH [of w] Cons.prems False show ?thesis
      by (simp add: bind_def step)
  next
    case True
    let ?w = "w \<lparr> heap := (heap w)[b := (heap w ! b) \<lparr> props := AList.update key ?r (props (heap w ! b)) \<rparr>] \<rparr>"
    from True Cons.prems have step: "copy_action (JRef p) (JRef b) key w = (Inr (), ?w)"
      by (simp add: copy_action_def Let_def assign_prop_def)
    have same: "get_prop (heap ?w) (JRef p) k = get_prop (heap w) (JRef p) k" for k
      using Cons.prems(1) by (simp add: get_prop_other)
    have act: "is_action (heap ?w) (get_prop (heap w) (JRef p) k) =
               is_action (heap w) (get_prop (heap w) (JRef p) k)" if "k \<in> set ks" for k
      using that Cons.prems(2,5)
      by (simp add: is_action_def is_function_same_kind get_prop_other)
    have "p \<noteq> b" "b < length (heap ?w)" "kind (heap ?w ! b) = KFunction"
      "\<forall>k\<in>set ks. k \<notin> set function_readonly_names"
      "\<forall>k\<in>set ks. get_prop (heap ?w) (JRef p) k \<noteq> JRef b"
      using Cons.prems by (simp_all add: get_prop_other)
    from Cons.IH [OF this] Cons.prems(1,2) True show ?thesis
      using act by (simp add: bind_def step get_prop_other cong: filter_cong)
  qed
qed


lemma get_prop_append:
  "in_heap h v \<Longrightarrow> get_prop (h @ xs) v k = get_prop h v k"
  by (cases v) (simp_all add: get_prop_def in_heap_def nth_append)

lemma is_function_append:
  "in_heap h v \<Longrightarrow> is_function (h @ xs) v = is_function h v"
  by (cases v) (simp_all add: is_function_def in_heap_def nth_append)

lemma own_keys_append:
  "in_heap h v \<Longrightarrow> own_keys (h @ xs) v = own_keys h v"
  by (cases v) (simp_all add: own_keys_def in_heap_def nth_append)

lemma is_action_append:
  "in_heap h v \<Longrightarrow> is_action (h @ xs) v = is_action h v"
  by (simp add: is_action_def is_function_append get_prop_append)

lemma entries_of_keys:
  "distinct (map fst es) \<Longrightarrow>
   map (\<lambda>k. (k, case map_of es k of Some x \<Rightarrow> x | None \<Rightarrow> d k)) (map fst es) = es"
proof -
  assume d: "distinct (map fst es)"
  have m: "map_of es k = Some v" if "(k, v) \<in> set es" for k v
    using that d by simp
  have "map ((\<lambda>k. (k, case map_of es k of Some x \<Rightarrow> x | None \<Rightarrow> d k)) \<circ> fst) es = es"
    by (rule map_idI) (auto simp: m)
  then show ?thesis by simp
qed

lemma ActionizeBuild_nest_result:
  assumes "distinct (map fst reducers)"
    and "\<forall>k\<in>set (map fst reducers). k \<notin> set function_readonly_names"
    and "p < length (heap w)"
    and "\<forall>k\<in>set (own_keys (heap w) (JRef p)). k \<notin> set function_readonly_names"
    and "\<forall>k\<in>set (own_keys (heap w) (JRef p)). in_heap (heap w) (get_prop (heap w) (JRef p) k)"
  shows "ActionizeBuild_nest (JRef p) reducers w =
     (Inr (JRef (Suc (length (heap w)))),
      w \<lparr> heap := heap w @
        [\<lparr> kind = KFunction, props = reducers, elems = [] \<rparr>,
         \<lparr> kind = KFunction,
           props = foldl (\<lambda>ps kv. AList.update (fst kv) (snd kv) ps) reducers
                     (map (\<lambda>k. (k, get_prop (heap w) (JRef p) k))
                        (filter (\<lambda>k. is_action (heap w) (get_prop (heap w) (JRef p) k))
                           (own_keys (heap w) (JRef p)))),
           elems = [] \<rparr>] \<rparr>)"
proof -
  let ?n = "length (heap w)"
  let ?F = "\<lambda>ps. \<lparr> kind = KFunction, props = ps, elems = [] \<rparr>"
  let ?w2 = "w \<lparr> heap := heap w @ [?F reducers, ?F []] \<rparr>"
  let ?w3 = "w \<lparr> heap := heap w @ [?F reducers, ?F reducers] \<rparr>"
  have nested: "get_prop (heap w @ [?F reducers, ?F []]) (JRef ?n) k =
      (case map_of reducers k of Some x \<Rightarrow> x
       | None \<Rightarrow> if k \<in> set object_prototype_names then JNative k else JUndefined)" for k
    by (simp add: get_prop_def nth_append)
  have keys2: "own_keys (heap w @ [?F reducers, ?F []]) (JRef ?n) = map fst reducers"
    by (simp add: own_keys_def nth_append)
  have "?n \<noteq> Suc ?n" "Suc ?n < length (heap ?w2)" "kind (heap ?w2 ! Suc ?n) = KFunction"
    by (simp_all add: nth_append)
  from copy_props [OF this, of "map fst reducers"] assms(1,2)
  have step3: "forEach (map fst reducers)
       (\<lambda>key w'. assign_prop (JRef (Suc ?n)) key (get_prop (heap w') (JRef ?n) key) w') ?w2 =
     (Inr (), ?w3)"
    by (simp add: nested entries_of_keys update_all_fresh nth_append list_update_append
        del: map_map)
  have par: "in_heap (heap w) (JRef p)"
    using assms(3) by (simp add: in_heap_def)
  have keys3: "own_keys (heap w @ [?F reducers, ?F reducers]) (JRef p) = own_keys (heap w) (JRef p)"
    using own_keys_append [OF par] by simp
  have get3: "get_prop (heap w @ [?F reducers, ?F reducers]) (JRef p) k = get_prop (heap w) (JRef p) k" for k
    using get_prop_append [OF par] by simp
  have act3: "is_action (heap w @ [?F reducers, ?F reducers]) (get_prop (heap w) (JRef p) k) =
      is_action (heap w) (get_prop (heap w) (JRef p) k)"
    if "k \<in> set (own_keys (heap w) (JRef p))" for k
    using assms(5) that is_action_append [of "heap w" "get_prop (heap w) (JRef p) k"] by simp
  have "p \<noteq> Suc ?n" "Suc ?n < length (heap ?w3)" "kind (heap ?w3 ! Suc ?n) = KFunction"
    "\<forall>k\<in>set (own_keys (heap w) (JRef p)). k \<notin> set function_readonly_names"
    "\<forall>k\<in>set (own_keys (heap w) (JRef p)). get_prop (heap ?w3) (JRef p) k \<noteq> JRef (Suc ?n)"
    using assms(3,4,5) by (auto simp: nth_append get3 in_heap_def)
  from copy_actions [OF this]
  have step4: "forEach (own_keys (heap w) (JRef p)) (copy_action (JRef p) (JRef (Suc ?n))) ?w3 =
     (Inr (), w \<lparr> heap := heap w @
        [?F reducers,
         ?F (foldl (\<lambda>ps kv. AList.update (fst kv) (snd kv) ps) reducers
               (map (\<lambda>k. (k, get_prop (heap w) (JRef p) k))
                  (filter (\<lambda>k. is_action (heap w) (get_prop (heap w) (JRef p) k))
                     (own_keys (heap w) (JRef p)))))] \<rparr>)"
    using act3 by (simp add: get3 nth_append list_update_append cong: filter_cong)
  show ?thesis
    unfolding ActionizeBuild_nest_def
    by (simp add: bind_def ActionizeBuild_combine_result [OF assms(1,2)] alloc_def ret_def
        keys2 step3 keys3 step4)
qed


lemma map_of_rev_graph:
  "map_of (rev (map (\<lambda>k. (k, f k)) ks)) k = (if k \<in> set ks then Some (f k) else None)"
  by (simp add: rev_map map_of_map_restrict restrict_map_def)

text \<open>
  C9 (as amended).  Let the keys of the reducer map be distinct, as the keys of an object
  are, and none of them \<open>name\<close>, \<open>length\<close>, \<open>caller\<close> or \<open>arguments\<close>.  Then
  \<open>ActionizeBuild.combine\<close> returns a new function that has, under every key of the map,
  the child reducer given under that key.  \<open>ActionizeBuild.nest\<close>, for a parent whose own
  keys are none of those four names either, returns a new function that has, under every
  key of the parent whose value is a function with a truthy \<open>type\<close>, that very value, and
  under every other key of the map the child reducer.
\<close>

theorem ActionizeBuild_exposes:
  assumes "distinct (map fst reducers)"
    and "\<forall>k\<in>set (map fst reducers). k \<notin> set function_readonly_names"
  shows "(\<exists>w1. ActionizeBuild_combine reducers w = (Inr (JRef (length (heap w))), w1) \<and>
            (\<forall>kr\<in>set reducers. get_prop (heap w1) (JRef (length (heap w))) (fst kr) = snd kr)) \<and>
         (p < length (heap w) \<and>
          (\<forall>k\<in>set (own_keys (heap w) (JRef p)).
              k \<notin> set function_readonly_names \<and> in_heap (heap w) (get_prop (heap w) (JRef p) k))
          \<longrightarrow>
          (\<exists>w2. ActionizeBuild_nest (JRef p) reducers w = (Inr (JRef (Suc (length (heap w)))), w2) \<and>
             (\<forall>k\<in>set (parent_actions (heap w) (JRef p)).
                 get_prop (heap w2) (JRef (Suc (length (heap w)))) k = get_prop (heap w) (JRef p) k) \<and>
             (\<forall>kr\<in>set reducers. fst kr \<notin> set (parent_actions (heap w) (JRef p)) \<longrightarrow>
                 get_prop (heap w2) (JRef (Suc (length (heap w)))) (fst kr) = snd kr)))"
proof (intro conjI impI)
  have own: "map_of reducers k = Some r" if "(k, r) \<in> set reducers" for k r
    using that assms(1) by simp
  show "\<exists>w1. ActionizeBuild_combine reducers w = (Inr (JRef (length (heap w))), w1) \<and>
            (\<forall>kr\<in>set reducers. get_prop (heap w1) (JRef (length (heap w))) (fst kr) = snd kr)"
    using own by (auto simp: ActionizeBuild_combine_result [OF assms] get_prop_def)
  assume par: "p < length (heap w) \<and>
          (\<forall>k\<in>set (own_keys (heap w) (JRef p)).
              k \<notin> set function_readonly_names \<and> in_heap (heap w) (get_prop (heap w) (JRef p) k))"
  let ?acts = "parent_actions (heap w) (JRef p)"
  let ?ps = "foldl (\<lambda>ps kv. AList.update (fst kv) (snd kv) ps) reducers
               (map (\<lambda>k. (k, get_prop (heap w) (JRef p) k)) ?acts)"
  have res: "ActionizeBuild_nest (JRef p) reducers w =
     (Inr (JRef (Suc (length (heap w)))),
      w \<lparr> heap := heap w @
        [\<lparr> kind = KFunction, props = reducers, elems = [] \<rparr>,
         \<lparr> kind = KFunction, props = ?ps, elems = [] \<rparr>] \<rparr>)"
    using ActionizeBuild_nest_result [OF assms, of p w] par
    by (simp add: parent_actions_def)
  have look: "map_of ?ps k =
      (if k \<in> set ?acts then Some (get_prop (heap w) (JRef p) k) else map_of reducers k)" for k
    by (simp add: map_of_update_all map_of_rev_graph)
  have "\<forall>k\<in>set ?acts.
      get_prop (heap w @ [\<lparr> kind = KFunction, props = reducers, elems = [] \<rparr>,
         \<lparr> kind = KFunction, props = ?ps, elems = [] \<rparr>]) (JRef (Suc (length (heap w)))) k =
      get_prop (heap w) (JRef p) k"
    by (simp add: get_prop_def [of "_ @ _"] nth_append look)
  moreover have "\<forall>kr\<in>set reducers. fst kr \<notin> set ?acts \<longrightarrow>
      get_prop (heap w @ [\<lparr> kind = KFunction, props = reducers, elems = [] \<rparr>,
         \<lparr> kind = KFunction, props = ?ps, elems = [] \<rparr>]) (JRef (Suc (length (heap w)))) (fst kr) =
      snd kr"
    using own by (auto simp: get_prop_def [of "_ @ _"] nth_append look)
  ultimately show "\<exists>w2. ActionizeBuild_nest (JRef p) reducers w =
        (Inr (JRef (Suc (length (heap w)))), w2) \<and>
      (\<forall>k\<in>set ?acts.
          get_prop (heap w2) (JRef (Suc (length (heap w)))) k = get_prop (heap w) (JRef p) k) \<and>
      (\<forall>kr\<in>set reducers. fst kr \<notin> set ?acts \<longrightarrow>
          get_prop (heap w2) (JRef (Suc (length (heap w)))) (fst kr) = snd kr)"
    by (simp add: res)
qed


lemma expose_world_parent:
  "own_keys (heap expose_world) (JRef 1) = [''a1'', ''noCopy1'', ''noCopy2'']"
  "parent_actions (heap expose_world) (JRef 1) = [''a1'']"
  "length (heap expose_world) = 4"
  by (simp_all add: expose_world_def own_keys_def parent_actions_def is_action_def
      is_function_def get_prop_def object_prototype_names_def)

theorem ActionizeBuild_exposes_witness:
  "distinct (map fst [(''r2'', JRef 3)]) \<and>
   ''r2'' \<notin> set function_readonly_names \<and>
   own_keys (heap expose_world) (JRef 1) = [''a1'', ''noCopy1'', ''noCopy2''] \<and>
   parent_actions (heap expose_world) (JRef 1) = [''a1''] \<and>
   fst (ActionizeBuild_combine [(''r2'', JRef 3)] expose_world) = Inr (JRef 4) \<and>
   get_prop (heap (snd (ActionizeBuild_combine [(''r2'', JRef 3)] expose_world))) (JRef 4) ''r2''
     = JRef 3 \<and>
   fst (ActionizeBuild_nest (JRef 1) [(''r2'', JRef 3)] expose_world) = Inr (JRef 5) \<and>
   get_prop (heap (snd (ActionizeBuild_nest (JRef 1) [(''r2'', JRef 3)] expose_world))) (JRef 5) ''a1''
     = JRef 0 \<and>
   get_prop (heap (snd (ActionizeBuild_nest (JRef 1) [(''r2'', JRef 3)] expose_world))) (JRef 5) ''r2''
     = JRef 3"
proof -
  have d: "distinct (map fst [(''r2'', JRef 3)])"
    by simp
  have k: "\<forall>k\<in>set (map fst [(''r2'', JRef 3)]). k \<notin> set function_readonly_names"
    by (simp add: function_readonly_names_def)
  have par: "1 < length (heap expose_world) \<and>
     (\<forall>k\<in>set (own_keys (heap expose_world) (JRef 1)).
        k \<notin> set function_readonly_names \<and>
        in_heap (heap expose_world) (get_prop (heap expose_world) (JRef 1) k))"
    by (simp add: expose_world_def own_keys_def function_readonly_names_def get_prop_def
        in_heap_def)
  note inst = ActionizeBuild_exposes [OF d k, of expose_world 1]
  from inst obtain w1 where c: "ActionizeBuild_combine [(''r2'', JRef 3)] expose_world =
      (Inr (JRef (length (heap expose_world))), w1)"
    "\<forall>kr\<in>set [(''r2'', JRef 3)].
        get_prop (heap w1) (JRef (length (heap expose_world))) (fst kr) = snd kr"
    by blast
  from inst par obtain w2 where n: "ActionizeBuild_nest (JRef 1) [(''r2'', JRef 3)] expose_world =
      (Inr (JRef (Suc (length (heap expose_world)))), w2)"
    "\<forall>k\<in>set (parent_actions (heap expose_world) (JRef 1)).
        get_prop (heap w2) (JRef (Suc (length (heap expose_world)))) k =
        get_prop (heap expose_world) (JRef 1) k"
    "\<forall>kr\<in>set [(''r2'', JRef 3)]. fst kr \<notin> set (parent_actions (heap expose_world) (JRef 1)) \<longrightarrow>
        get_prop (heap w2) (JRef (Suc (length (heap expose_world)))) (fst kr) = snd kr"
    by blast
  have a1: "get_prop (heap expose_world) (JRef 1) ''a1'' = JRef 0"
    by (simp add: expose_world_def get_prop_def)
  from c n a1 expose_world_parent show ?thesis
    by (simp add: function_readonly_names_def)
qed

text \<open>
  The claim as first stated fails: the function \<open>combine\<close> of index.js returns has no
  property at all, and \<open>ActionizeBuild.combine\<close> throws for the key \<open>name\<close>, which no
  assignment to a function can write.
\<close>

theorem ActionizeBuild_exposes_counterexample:
  "fst (combine [(''r2'', JRef 3)] expose_world) = Inr (JRef 4) \<and>
   get_prop (heap (snd (combine [(''r2'', JRef 3)] expose_world))) (JRef 4) ''r2'' = JUndefined \<and>
   fst (ActionizeBuild_combine [(''name'', JRef 3)] expose_world) = Inl TypeError"
  by (simp add: combine_def ActionizeBuild_combine_def alloc_def bind_def assign_prop_def
      expose_world_def get_prop_def object_prototype_names_def function_readonly_names_def
      nth_append)

section \<open>handle and the composite key\<close>

lemma split_sep_nonempty: "split_sep c s \<noteq> []"
  by (induction s) (auto split: list.splits)











lemma digit_char_not_sep:
  "d < 10 \<Longrightarrow> digit_char d \<noteq> CHR ''|''"
proof
  assume d: "d < 10" and e: "digit_char d = CHR ''|''"
  from e have "(of_char (digit_char d) :: nat) = of_char CHR ''|''"
    by simp
  with d show False
    by (simp add: digit_char_def)
qed

lemma decimal_no_sep:
  "CHR ''|'' \<notin> set (decimal n)"
proof (induction n rule: decimal.induct)
  case (1 n)
  show ?case
  proof (cases "n < 10")
    case True
    then show ?thesis
      using digit_char_not_sep [of n] by (subst decimal.simps) auto
  next
    case False
    with "1.IH" show ?thesis
      using digit_char_not_sep [of "n mod 10"] by (subst decimal.simps) auto
  qed
qed

lemma createActionType_is_action_type:
  assumes "createActionType reg namespace key = (Inr t, reg')"
  shows "is_action_type t"
proof (cases namespace)
  case (JStr ns)
  with assms have ok: "\<not> namespace_match ns" "\<not> key_match key"
    by (auto simp: createActionType_def split: if_splits)
  then have "CHR ''|'' \<notin> set ns" "CHR ''|'' \<notin> set key"
    by (simp_all add: namespace_match_iff key_match_iff)
  with assms JStr ok show ?thesis
    by (auto simp: createActionType_def Let_def is_action_type_def decimal_no_sep
        split: if_splits)
qed (use assms in \<open>simp_all add: createActionType_def\<close>)



section \<open>Values of the action map that are no functions\<close>

lemma extends_refl: "extends h h"
  by (simp add: extends_def)

lemma extends_trans: "extends h h' \<Longrightarrow> extends h' h'' \<Longrightarrow> extends h h''"
  by (auto simp: extends_def)

lemma stable_ret: "heap_stable (ret x)"
  by (simp add: heap_stable_def ret_def extends_refl)

lemma stable_throw: "heap_stable (throw e)"
  by (simp add: heap_stable_def throw_def extends_refl)

lemma stable_alloc: "heap_stable (alloc kd)"
  by (simp add: heap_stable_def alloc_def extends_def nth_append)

lemma stable_assign_prop: "heap_stable (assign_prop target k v)"
  by (cases target) (auto simp: heap_stable_def assign_prop_def extends_def Let_def nth_list_update)

lemma stable_array_push: "heap_stable (array_push list v)"
  by (cases list) (auto simp: heap_stable_def array_push_def extends_def Let_def nth_list_update)

lemma stable_bind:
  assumes "heap_stable m" and "\<And>x. heap_stable (g x)"
  shows "heap_stable (bind m g)"
proof -
  have "extends (heap w) (heap (snd (bind m g w)))" for w
  proof (cases "m w")
    case (Pair r w1)
    from assms(1) have one: "extends (heap w) (heap w1)"
      using Pair by (auto simp: heap_stable_def dest: spec [of _ w])
    show ?thesis
    proof (cases r)
      case (Inl e)
      with Pair one show ?thesis by (simp add: bind_def)
    next
      case (Inr x)
      from assms(2) [of x] have "extends (heap w1) (heap (snd (g x w1)))"
        by (simp add: heap_stable_def)
      with one Pair Inr show ?thesis
        by (auto simp: bind_def intro: extends_trans)
    qed
  qed
  then show ?thesis by (simp add: heap_stable_def)
qed

lemma stable_forEach:
  "(\<And>x. heap_stable (g x)) \<Longrightarrow> heap_stable (forEach xs g)"
  by (induction xs) (simp_all add: stable_ret stable_bind)

lemma stable_pointwise:
  "(\<And>w. \<exists>m'. heap_stable m' \<and> m w = m' w) \<Longrightarrow> heap_stable m"
  by (metis heap_stable_def)

lemma stable_register_handler: "heap_stable (register_handler actionHandlers actionHandler name)"
proof (rule stable_pointwise)
  fix w
  show "\<exists>m'. heap_stable m' \<and> register_handler actionHandlers actionHandler name w = m' w"
  proof (cases "truthy (get_prop (heap w) actionHandlers name)")
    case True
    then show ?thesis
      by (intro exI [of _ "array_push (get_prop (heap w) actionHandlers name) actionHandler"])
        (simp add: register_handler_def stable_array_push)
  next
    case False
    then show ?thesis
      by (intro exI [of _ "bind (alloc KArray) (\<lambda>list.
                  bind (assign_prop actionHandlers name list) (\<lambda>_.
                  array_push list actionHandler))"])
        (simp add: register_handler_def stable_bind stable_alloc stable_assign_prop
          stable_array_push)
  qed
qed

lemma stable_buildActionType: "heap_stable (buildActionType namespace key)"
  by (simp add: buildActionType_def stable_ret stable_throw)

lemma stable_ActionizeBuild_reducer_entry:
  "heap_stable (ActionizeBuild_reducer_entry name rf tbl entry)"
proof (rule stable_pointwise)
  fix w
  obtain key v where e: "entry = (key, v)" by (cases entry)
  show "\<exists>m'. heap_stable m' \<and> ActionizeBuild_reducer_entry name rf tbl entry w = m' w"
  proof (cases "is_function (heap w) v \<and> key \<noteq> []")
    case False
    then have "ActionizeBuild_reducer_entry name rf tbl entry w = ret () w"
      by (auto simp: e ActionizeBuild_reducer_entry_def ret_def)
    with stable_ret [of "()"] show ?thesis
      by blast
  next
    case True
    then show ?thesis
      by (intro exI [of _ "bind (alloc KFunction) (\<lambda>actionCall.
               bind (if hd key = CHR ''|'' then ret (split_key key)
                     else bind (buildActionType name key) (\<lambda>actionType.
                          bind (assign_prop actionCall ''type'' (JStr actionType)) (\<lambda>_.
                          bind (assign_prop rf key actionCall) (\<lambda>_.
                          ret [actionType]))))
                 (\<lambda>actionTypes.
                    forEach actionTypes (register_handler tbl actionCall)))"])
        (simp add: e ActionizeBuild_reducer_entry_def stable_bind stable_alloc stable_ret
          stable_buildActionType stable_assign_prop stable_forEach stable_register_handler)
  qed
qed

lemma is_function_extends:
  "extends h h' \<Longrightarrow> in_heap h v \<Longrightarrow> is_function h' v = is_function h v"
  by (cases v) (auto simp: is_function_def in_heap_def extends_def)

lemma in_heap_extends:
  "extends h h' \<Longrightarrow> in_heap h v \<Longrightarrow> in_heap h' v"
  by (cases v) (auto simp: in_heap_def extends_def)

lemma forEach_ignores:
  assumes "\<forall>kv\<in>set actions. in_heap (heap w) (snd kv)" and "extends (heap w) (heap w1)"
  shows "forEach actions (ActionizeBuild_reducer_entry name rf tbl) w1 =
         forEach (filter (\<lambda>kv. is_function (heap w) (snd kv)) actions)
           (ActionizeBuild_reducer_entry name rf tbl) w1"
  using assms
proof (induction actions arbitrary: w1)
  case Nil
  show ?case by simp
next
  case (Cons entry actions)
  obtain key v where e: "entry = (key, v)" by (cases entry)
  from Cons.prems e have v: "in_heap (heap w) v" by simp
  from Cons.prems have rest: "\<forall>kv\<in>set actions. in_heap (heap w) (snd kv)" by simp
  have same: "is_function (heap w1) v = is_function (heap w) v"
    using is_function_extends [OF Cons.prems(2) v] .
  show ?case
  proof (cases "is_function (heap w) v")
    case False
    with same have "ActionizeBuild_reducer_entry name rf tbl entry w1 = (Inr (), w1)"
      by (simp add: e ActionizeBuild_reducer_entry_def)
    with False Cons.IH [OF rest Cons.prems(2)] show ?thesis
      by (simp add: e bind_def)
  next
    case True
    obtain r w2 where step: "ActionizeBuild_reducer_entry name rf tbl entry w1 = (r, w2)"
      by (cases "ActionizeBuild_reducer_entry name rf tbl entry w1")
    from stable_ActionizeBuild_reducer_entry [of name rf tbl entry] step
    have "extends (heap w1) (heap w2)"
      by (auto simp: heap_stable_def dest: spec [of _ w1])
    with Cons.prems(2) have "extends (heap w) (heap w2)"
      by (rule extends_trans)
    from Cons.IH [OF rest this] True step show ?thesis
      by (simp add: e bind_def split: sum.splits)
  qed
qed

text \<open>
  C7 (as amended).  \<open>ActionizeBuild.reducer\<close> ignores every value of the action map that
  is not a function: the reducer it returns and the world it leaves (the dispatch table,
  the properties of the reducer, everything in the heap and the registry) are those of
  building from the map without these entries.  The values of the map are values the
  caller can hold: none is an address beyond the heap.
\<close>

theorem ActionizeBuild_reducer_ignores:
  assumes "\<forall>kv\<in>set actions. in_heap (heap w) (snd kv)"
  shows "ActionizeBuild_reducer name initialState actions w =
         ActionizeBuild_reducer name initialState
           (filter (\<lambda>kv. is_function (heap w) (snd kv)) actions) w"
proof -
  let ?w2 = "snd (alloc KFunction (snd (alloc KObject w)))"
  have "extends (heap w) (heap ?w2)"
    by (simp add: alloc_def extends_def nth_append)
  from forEach_ignores [OF assms this]
  show ?thesis
    by (simp add: ActionizeBuild_reducer_def bind_def alloc_def)
qed


lemma ignore_build:
  "ActionizeBuild_reducer (JStr ''foo'') JNull [(''setBar'', JRef 0)] ignore_world =
     (Inr (JRef 3),
      ignore_world \<lparr> heap := heap ignore_world @
        [\<lparr> kind = KObject, props = [(''|foo:setBar'', JRef 5)], elems = [] \<rparr>,
         \<lparr> kind = KFunction, props = [(''setBar'', JRef 4)], elems = [] \<rparr>,
         \<lparr> kind = KFunction, props = [(''type'', JStr ''|foo:setBar'')], elems = [] \<rparr>,
         \<lparr> kind = KArray, props = [], elems = [JRef 4] \<rparr>] \<rparr>)"
  by (simp add: ActionizeBuild_reducer_def ActionizeBuild_reducer_entry_def bind_def alloc_def
      ret_def ignore_world_def is_function_def buildActionType_def key_match_def
      assign_prop_def function_readonly_names_def register_handler_def get_prop_def
      object_prototype_names_def array_push_def nth_append)

theorem ActionizeBuild_reducer_ignores_witness:
  "in_heap (heap ignore_world) (JRef 0) \<and> in_heap (heap ignore_world) (JRef 1) \<and>
   filter (\<lambda>kv. is_function (heap ignore_world) (snd kv)) ignore_actions = [(''setBar'', JRef 0)] \<and>
   ActionizeBuild_reducer (JStr ''foo'') JNull ignore_actions ignore_world =
     (Inr (JRef 3),
      ignore_world \<lparr> heap := heap ignore_world @
        [\<lparr> kind = KObject, props = [(''|foo:setBar'', JRef 5)], elems = [] \<rparr>,
         \<lparr> kind = KFunction, props = [(''setBar'', JRef 4)], elems = [] \<rparr>,
         \<lparr> kind = KFunction, props = [(''type'', JStr ''|foo:setBar'')], elems = [] \<rparr>,
         \<lparr> kind = KArray, props = [], elems = [JRef 4] \<rparr>] \<rparr>)"
proof -
  have a: "\<forall>kv\<in>set ignore_actions. in_heap (heap ignore_world) (snd kv)"
    by (simp add: ignore_actions_def ignore_world_def in_heap_def)
  have f: "filter (\<lambda>kv. is_function (heap ignore_world) (snd kv)) ignore_actions =
      [(''setBar'', JRef 0)]"
    by (simp add: ignore_actions_def ignore_world_def is_function_def)
  have i: "in_heap (heap ignore_world) (JRef 0)" "in_heap (heap ignore_world) (JRef 1)"
    by (simp_all add: ignore_world_def in_heap_def)
  from ActionizeBuild_reducer_ignores [OF a, of "JStr ''foo''" JNull]
  have "ActionizeBuild_reducer (JStr ''foo'') JNull ignore_actions ignore_world =
        ActionizeBuild_reducer (JStr ''foo'') JNull [(''setBar'', JRef 0)] ignore_world"
    by (simp only: f)
  with i f show ?thesis
    by (simp only: ignore_build simp_thms)
qed

text \<open>
  The claim as first stated fails for \<open>reducer\<close> of index.js, which has no test of what
  the value is.  For the map \<open>{notAFunction2: {}}\<close> it allocates the type
  \<open>|foo:notAFunction2\<close>, writes it to the \<open>type\<close> of the object, makes the object a
  property of the reducer and puts it in the dispatch table.
\<close>

theorem ActionizeBuild_reducer_ignores_counterexample:
  "fst (reducer (JStr ''foo'') JNull [(''notAFunction2'', JRef 1)] ignore_world) = Inr (JRef 3) \<and>
   get_prop (heap (snd (reducer (JStr ''foo'') JNull [(''notAFunction2'', JRef 1)] ignore_world)))
     (JRef 3) ''notAFunction2'' = JRef 1 \<and>
   get_prop (heap (snd (reducer (JStr ''foo'') JNull [(''notAFunction2'', JRef 1)] ignore_world)))
     (JRef 1) ''type'' = JStr ''|foo:notAFunction2'' \<and>
   get_prop (heap (snd (reducer (JStr ''foo'') JNull [(''notAFunction2'', JRef 1)] ignore_world)))
     (JRef 2) ''|foo:notAFunction2'' = JRef 4 \<and>
   elems (heap (snd (reducer (JStr ''foo'') JNull [(''notAFunction2'', JRef 1)] ignore_world)) ! 4)
     = [JRef 1] \<and>
   actionTypes (globals (snd (reducer (JStr ''foo'') JNull [(''notAFunction2'', JRef 1)] ignore_world)))
     ''|foo:notAFunction2'' = Some True"
  by (simp add: reducer_def reducer_entry_def bind_def alloc_def ret_def ignore_world_def
      createActionType_js_def createActionType_def namespace_match_def key_match_def
      empty_registry_def assign_prop_def function_readonly_names_def register_handler_def
      get_prop_def object_prototype_names_def array_push_def nth_append Let_def)

section \<open>The builder writes to the handlers it is given\<close>





lemma keepsI:
  "(\<And>w. f < length (heap w) \<Longrightarrow>
      f < length (heap (snd (m w))) \<and> props (heap (snd (m w)) ! f) = props (heap w ! f)) \<Longrightarrow>
   keeps f m"
  by (simp add: keeps_def)


lemma keeps_throw: "keeps f (throw e)"
  by (rule keepsI) (simp add: throw_def)

























lemma allocatesI:
  "(\<And>w. \<exists>reqs. globals (snd (m w)) = run_requests (globals w) reqs) \<Longrightarrow> allocates m"
  by (simp add: allocates_def)


lemma allocates_same:
  assumes "\<And>w. globals (snd (m w)) = globals w"
  shows "allocates m"
proof (rule allocatesI)
  fix w :: world
  from assms [of w] have "globals (snd (m w)) = run_requests (globals w) []"
    by (simp add: run_requests_def)
  then show "\<exists>reqs. globals (snd (m w)) = run_requests (globals w) reqs" ..
qed


lemma allocates_throw: "allocates (throw e)"
  by (rule allocates_same) (simp add: throw_def)

























section \<open>The validator of action types: what it raises, and a second validation\<close>

text \<open>
  A validation that returns only adds to the reducers reserved; validating the same reducer
  again, in the state the first validation left or any later one, returns and changes
  nothing; and an error raised names a type that the map has, its own or an inherited one.
\<close>

lemma grows_refl: "grows s s"
  by (simp add: grows_def)

lemma grows_trans: "grows s t \<Longrightarrow> grows t u \<Longrightarrow> grows s u"
  by (auto simp: grows_def)

lemma reserve_keys_grows:
  assumes r: "\<And>item s res s'. recur item s = Some (res, s') \<Longrightarrow> grows s s'"
  shows "reserve_keys recur h red keys reserve s = Some (res, s') \<Longrightarrow> grows s s'"
proof (induction keys arbitrary: reserve s)
  case Nil
  then show ?case by (simp add: grows_refl)
next
  case (Cons key keys)
  let ?item = "get_prop h red key"
  let ?type = "get_prop h ?item ''type''"
  show ?case
  proof (cases "is_function h ?item")
    case False
    with Cons.prems have "reserve_keys recur h red keys reserve s = Some (res, s')"
      by simp
    then show ?thesis by (rule Cons.IH)
  next
    case fn: True
    show ?thesis
    proof (cases "truthy ?type")
      case True
      show ?thesis
      proof (cases "truthy (types_get (Actionize_actionTypes s) (to_string ?type))")
        case True
        with fn \<open>truthy ?type\<close> Cons.prems have "s' = s"
          by simp
        then show ?thesis by (simp add: grows_refl)
      next
        case False
        let ?s1 = "s \<lparr> Actionize_actionTypes :=
                          AList.update (to_string ?type) (JBool True) (Actionize_actionTypes s) \<rparr>"
        from False fn \<open>truthy ?type\<close> Cons.prems
        have "reserve_keys recur h red keys True ?s1 = Some (res, s')"
          by simp
        then have "grows ?s1 s'" by (rule Cons.IH)
        then show ?thesis by (simp add: grows_def)
      qed
    next
      case False
      show ?thesis
      proof (cases "recur ?item s")
        case None
        with fn False Cons.prems show ?thesis by simp
      next
        case (Some p)
        obtain res1 s1 where p: "p = (res1, s1)" by (cases p)
        from r Some p have g1: "grows s s1" by simp
        show ?thesis
        proof (cases res1)
          case (Inl e)
          with fn False Cons.prems Some p have "s' = s1" by simp
          with g1 show ?thesis by simp
        next
          case (Inr u)
          with fn False Cons.prems Some p
          have "reserve_keys recur h red keys reserve s1 = Some (res, s')"
            by simp
          then have "grows s1 s'" by (rule Cons.IH)
          with g1 show ?thesis by (rule grows_trans)
        qed
      qed
    qed
  qed
qed

lemma reserveActionTypes_grows:
  "reserveActionTypes depth h red s = Some (res, s') \<Longrightarrow> grows s s'"
proof (induction depth arbitrary: red s res s')
  case 0
  then show ?case by simp
next
  case (Suc depth)
  show ?case
  proof (cases "red \<in> set (Actionize_reducersReserved s)")
    case True
    with Suc.prems show ?thesis by (simp add: grows_refl)
  next
    case False
    show ?thesis
    proof (cases "reserve_keys (reserveActionTypes depth h) h red (own_keys h red) False s")
      case None
      with False Suc.prems show ?thesis by simp
    next
      case (Some p)
      obtain res1 s1 where p: "p = (res1, s1)" by (cases p)
      have "grows s s1"
      proof (rule reserve_keys_grows)
        show "reserve_keys (reserveActionTypes depth h) h red (own_keys h red) False s =
            Some (res1, s1)"
          using Some p by simp
      next
        fix item v r v'
        assume "reserveActionTypes depth h item v = Some (r, v')"
        then show "grows v v'" by (rule Suc.IH)
      qed
      with False Suc.prems Some p show ?thesis
        by (cases res1) (auto simp: grows_def split: if_splits)
    qed
  qed
qed

lemma reserve_keys_again:
  assumes g: "\<And>item s res s'. recur item s = Some (res, s') \<Longrightarrow> grows s s'"
    and i: "\<And>item s s' t. recur item s = Some (Inr (), s') \<Longrightarrow> grows s' t \<Longrightarrow>
        recur item t = Some (Inr (), t)"
  shows "reserve_keys recur h red keys reserve s = Some (Inr reserve', s') \<Longrightarrow>
     (reserve \<longrightarrow> reserve') \<and>
     (\<not> reserve' \<longrightarrow>
        (\<forall>t. grows s' t \<longrightarrow> reserve_keys recur h red keys False t = Some (Inr False, t)))"
proof (induction keys arbitrary: reserve s)
  case Nil
  then show ?case by simp
next
  case (Cons key keys)
  let ?item = "get_prop h red key"
  let ?type = "get_prop h ?item ''type''"
  show ?case
  proof (cases "is_function h ?item")
    case False
    with Cons.prems have "reserve_keys recur h red keys reserve s = Some (Inr reserve', s')"
      by simp
    from Cons.IH [OF this] False show ?thesis
      by simp
  next
    case fn: True
    show ?thesis
    proof (cases "truthy ?type")
      case ty: True
      show ?thesis
      proof (cases "truthy (types_get (Actionize_actionTypes s) (to_string ?type))")
        case True
        with fn ty Cons.prems show ?thesis
          by simp
      next
        case False
        let ?s1 = "s \<lparr> Actionize_actionTypes :=
                          AList.update (to_string ?type) (JBool True) (Actionize_actionTypes s) \<rparr>"
        from False fn ty Cons.prems
        have "reserve_keys recur h red keys True ?s1 = Some (Inr reserve', s')"
          by simp
        from Cons.IH [OF this] show ?thesis
          by simp
      qed
    next
      case ty: False
      show ?thesis
      proof (cases "recur ?item s")
        case None
        with fn ty Cons.prems show ?thesis by simp
      next
        case (Some p)
        obtain res1 s1 where p: "p = (res1, s1)" by (cases p)
        show ?thesis
        proof (cases res1)
          case (Inl e)
          with fn ty Cons.prems Some p show ?thesis by simp
        next
          case (Inr u)
          with Some p have first: "recur ?item s = Some (Inr (), s1)"
            by simp
          from Inr fn ty Cons.prems Some p
          have rest: "reserve_keys recur h red keys reserve s1 = Some (Inr reserve', s')"
            by simp
          from reserve_keys_grows [OF g rest] have g1: "grows s1 s'"
            by simp
          from Cons.IH [OF rest] have keep: "reserve \<longrightarrow> reserve'"
            and again: "\<not> reserve' \<longrightarrow>
              (\<forall>t. grows s' t \<longrightarrow> reserve_keys recur h red keys False t = Some (Inr False, t))"
            by simp_all
          have "reserve_keys recur h red (key # keys) False t = Some (Inr False, t)"
            if no: "\<not> reserve'" and gt: "grows s' t" for t
          proof -
            from g1 gt have "grows s1 t" by (rule grows_trans)
            with first have "recur ?item t = Some (Inr (), t)" by (rule i)
            moreover from again no gt
            have "reserve_keys recur h red keys False t = Some (Inr False, t)"
              by simp
            ultimately show ?thesis
              using fn ty by simp
          qed
          with keep show ?thesis
            by blast
        qed
      qed
    qed
  qed
qed

lemma reserveActionTypes_again:
  "reserveActionTypes depth h red s = Some (Inr (), s') \<Longrightarrow> grows s' t \<Longrightarrow>
   reserveActionTypes depth h red t = Some (Inr (), t)"
proof (induction depth arbitrary: red s s' t)
  case 0
  then show ?case by simp
next
  case (Suc depth)
  from Suc.prems(1) have g: "grows s s'"
    by (rule reserveActionTypes_grows)
  show ?case
  proof (cases "red \<in> set (Actionize_reducersReserved t)")
    case True
    then show ?thesis by simp
  next
    case out: False
    with Suc.prems(2) have out': "red \<notin> set (Actionize_reducersReserved s')"
      by (auto simp: grows_def)
    with g have out0: "red \<notin> set (Actionize_reducersReserved s)"
      by (auto simp: grows_def)
    show ?thesis
    proof (cases "reserve_keys (reserveActionTypes depth h) h red (own_keys h red) False s")
      case None
      with out0 Suc.prems(1) show ?thesis by simp
    next
      case (Some p)
      obtain res1 s1 where p: "p = (res1, s1)" by (cases p)
      show ?thesis
      proof (cases res1)
        case (Inl e)
        with out0 Suc.prems(1) Some p show ?thesis by simp
      next
        case (Inr reserve')
        with Some p have loop: "reserve_keys (reserveActionTypes depth h) h red (own_keys h red)
            False s = Some (Inr reserve', s1)"
          by simp
        have no: "\<not> reserve'"
        proof
          assume reserve'
          with out0 loop Suc.prems(1)
          have "s' = s1 \<lparr> Actionize_reducersReserved := Actionize_reducersReserved s1 @ [red] \<rparr>"
            by simp
          with out' show False by simp
        qed
        with out0 loop Suc.prems(1) have "s' = s1"
          by simp
        have "(False \<longrightarrow> reserve') \<and>
           (\<not> reserve' \<longrightarrow>
              (\<forall>t. grows s1 t \<longrightarrow>
                 reserve_keys (reserveActionTypes depth h) h red (own_keys h red) False t =
                   Some (Inr False, t)))"
        proof (rule reserve_keys_again [OF _ _ loop])
          fix item v r v'
          assume "reserveActionTypes depth h item v = Some (r, v')"
          then show "grows v v'" by (rule reserveActionTypes_grows)
        next
          fix item v v' u
          assume "reserveActionTypes depth h item v = Some (Inr (), v')" and "grows v' u"
          then show "reserveActionTypes depth h item u = Some (Inr (), u)"
            by (rule Suc.IH)
        qed
        with no Suc.prems(2) \<open>s' = s1\<close>
        have "reserve_keys (reserveActionTypes depth h) h red (own_keys h red) False t =
            Some (Inr False, t)"
          by simp
        with out show ?thesis
          by simp
      qed
    qed
  qed
qed

lemma reserveActionTypes_twice:
  assumes "reserveActionTypes depth h red s = Some (Inr (), s')"
  shows "reserveActionTypes depth h red s' = Some (Inr (), s')"
  using assms grows_refl by (rule reserveActionTypes_again)

lemma types_get_truthy:
  "truthy (types_get types t) \<Longrightarrow> map_of types t \<noteq> None \<or> t \<in> set object_prototype_names"
  by (auto simp: types_get_def split: option.splits if_splits)

lemma reserve_keys_raises:
  assumes r: "\<And>item s e s'. recur item s = Some (Inl e, s') \<Longrightarrow> recorded s' e"
  shows "reserve_keys recur h red keys reserve s = Some (Inl e, s') \<Longrightarrow> recorded s' e"
proof (induction keys arbitrary: reserve s)
  case Nil
  then show ?case by simp
next
  case (Cons key keys)
  let ?item = "get_prop h red key"
  let ?type = "get_prop h ?item ''type''"
  show ?case
  proof (cases "is_function h ?item")
    case False
    with Cons.prems have "reserve_keys recur h red keys reserve s = Some (Inl e, s')"
      by simp
    then show ?thesis by (rule Cons.IH)
  next
    case fn: True
    show ?thesis
    proof (cases "truthy ?type")
      case ty: True
      show ?thesis
      proof (cases "truthy (types_get (Actionize_actionTypes s) (to_string ?type))")
        case True
        with fn ty Cons.prems have "e = DuplicateActionType (to_string ?type)" and "s' = s"
          by simp_all
        with types_get_truthy [OF True] show ?thesis
          by (simp add: recorded_def)
      next
        case False
        with fn ty Cons.prems
        have "reserve_keys recur h red keys True
            (s \<lparr> Actionize_actionTypes :=
                   AList.update (to_string ?type) (JBool True) (Actionize_actionTypes s) \<rparr>) =
            Some (Inl e, s')"
          by simp
        then show ?thesis by (rule Cons.IH)
      qed
    next
      case ty: False
      show ?thesis
      proof (cases "recur ?item s")
        case None
        with fn ty Cons.prems show ?thesis by simp
      next
        case (Some p)
        obtain res1 s1 where p: "p = (res1, s1)" by (cases p)
        show ?thesis
        proof (cases res1)
          case (Inl e1)
          with fn ty Cons.prems Some p have "e = e1" and "s' = s1"
            by simp_all
          with Inl Some p have "recur ?item s = Some (Inl e, s')"
            by simp
          then show ?thesis by (rule r)
        next
          case (Inr u)
          with fn ty Cons.prems Some p
          have "reserve_keys recur h red keys reserve s1 = Some (Inl e, s')"
            by simp
          then show ?thesis by (rule Cons.IH)
        qed
      qed
    qed
  qed
qed

lemma reserveActionTypes_raises:
  "reserveActionTypes depth h red s = Some (Inl e, s') \<Longrightarrow> recorded s' e"
proof (induction depth arbitrary: red s e s')
  case 0
  then show ?case by simp
next
  case (Suc depth)
  show ?case
  proof (cases "red \<in> set (Actionize_reducersReserved s)")
    case True
    with Suc.prems show ?thesis by simp
  next
    case False
    show ?thesis
    proof (cases "reserve_keys (reserveActionTypes depth h) h red (own_keys h red) False s")
      case None
      with False Suc.prems show ?thesis by simp
    next
      case (Some p)
      obtain res1 s1 where p: "p = (res1, s1)" by (cases p)
      show ?thesis
      proof (cases res1)
        case (Inl e1)
        with False Suc.prems Some p have "e = e1" and "s' = s1"
          by simp_all
        with Inl Some p
        have "reserve_keys (reserveActionTypes depth h) h red (own_keys h red) False s =
            Some (Inl e, s')"
          by simp
        then show ?thesis
        proof (rule reserve_keys_raises [rotated])
          fix item v e2 v'
          assume "reserveActionTypes depth h item v = Some (Inl e2, v')"
          then show "recorded v' e2" by (rule Suc.IH)
        qed
      next
        case (Inr reserve')
        with False Suc.prems Some p show ?thesis by simp
      qed
    qed
  qed
qed

text \<open>
  C5.  The validator is to raise \<open>DuplicateActionType\<close> exactly when the walk meets a type
  that was recorded before.  The code raises it for a type that nothing has recorded when
  the type names a member every object inherits: on a new instance, for the reducer whose
  only property \<open>reset\<close> is a function with the type \<open>constructor\<close>, the lookup in the empty
  map of types finds the inherited constructor, and the validator raises; with the type
  \<open>|todo:reset\<close> the same call records the type and reserves the reducer.
\<close>

theorem reserveActionTypes_inherited_type_raises:
  "Actionize_actionTypes new_Actionize = [] \<and>
   reserveActionTypes 2 (typed_world ''constructor'') (JRef 0) new_Actionize =
     Some (Inl (DuplicateActionType ''constructor''), new_Actionize) \<and>
   reserveActionTypes 2 (typed_world ''|todo:reset'') (JRef 0) new_Actionize =
     Some (Inr (), \<lparr> Actionize_actionTypes = [(''|todo:reset'', JBool True)],
                     Actionize_reducersReserved = [JRef 0] \<rparr>)"
  by (simp add: numeral_2_eq_2 typed_world_def new_Actionize_def own_keys_def get_prop_def
      is_function_def types_get_def object_prototype_names_def)

end
